theory Spec2Isabelle
  imports Complex_Main
begin

section \<open>JavaScript values carried by frames\<close>

text \<open>
  Frames travel as JSON text, so the values the dispatchers see are JSON values, plus
  \<open>undefined\<close> for a field that is not there. An object is an association list from
  property names to values (keys unique, as \<open>JSON.parse\<close> produces them). A number is the
  rational it denotes (every finite double is one); no function below computes on it.
\<close>

datatype json =
    JUndefined
  | JNull
  | JBool bool
  | JNum rat
  | JStr string
  | JArr "json list"
  | JObj "(string \<times> json) list"

text \<open>
  \<open>v.name\<close> for a value that is neither \<open>null\<close> nor \<open>undefined\<close>, and a name that is
  not a built-in property of strings or arrays (the code reads \<open>message\<close>, \<open>code\<close>,
  \<open>stack\<close>, \<open>type\<close>, \<open>data\<close> and \<open>protocol\<close> only): the stored value for an object that
  has the property, \<open>undefined\<close> otherwise.
\<close>

fun get_prop :: "json \<Rightarrow> string \<Rightarrow> json" where
  "get_prop (JObj fs) name = (case map_of fs name of Some v \<Rightarrow> v | None \<Rightarrow> JUndefined)"
| "get_prop v name = JUndefined"

text \<open>\<open>typeof v === 'object'\<close> together with \<open>v != null\<close>: objects and arrays.\<close>

fun is_object :: "json \<Rightarrow> bool" where
  "is_object (JObj fs) = True"
| "is_object (JArr vs) = True"
| "is_object v = False"

text \<open>JavaScript truthiness, as \<open>invariant(result)\<close> and \<open>a && b\<close> test it.\<close>

fun truthy :: "json \<Rightarrow> bool" where
  "truthy JUndefined = False"
| "truthy JNull = False"
| "truthy (JBool b) = b"
| "truthy (JNum n) = (n \<noteq> 0)"
| "truthy (JStr s) = (s \<noteq> [])"
| "truthy (JArr vs) = True"
| "truthy (JObj fs) = True"

section \<open>decodeError\<close>

text \<open>
  \<^verbatim>\<open>
  function decodeError(encodedError) {
    if (encodedError != null && typeof encodedError === 'object') {
      const resultError = new Error();
      resultError.message = encodedError.message;
      resultError.code = encodedError.code;
      resultError.stack = encodedError.stack;
      return resultError;
    } else {
      return encodedError;
    }
  }
  \<close>
  The result is either an \<open>Error\<close> with the three assigned properties or the argument
  itself.
\<close>

datatype decoded =
    ErrorObject (error_message: json) (error_code: json) (error_stack: json)
  | AsIs json

definition decodeError :: "json \<Rightarrow> decoded" where
  "decodeError encodedError =
     (if encodedError \<noteq> JNull \<and> encodedError \<noteq> JUndefined \<and> is_object encodedError
      then ErrorObject (get_prop encodedError ''message'') (get_prop encodedError ''code'')
             (get_prop encodedError ''stack'')
      else AsIs encodedError)"

section \<open>The client component\<close>

subsection \<open>Frames\<close>

text \<open>
  The constants \<open>SERVICE_FRAMEWORK3_CHANNEL\<close> and \<open>SERVICE_FRAMEWORK_RPC_TIMEOUT_MS\<close> are
  imported from a configuration module; the functions below take them as a parameter.
\<close>

record config =
  SERVICE_FRAMEWORK3_CHANNEL :: string
  SERVICE_FRAMEWORK_RPC_TIMEOUT_MS :: nat

text \<open>
  The five request messages the client builds. Each has the literal
  \<open>protocol: 'service_framework3_rpc'\<close>.
\<close>

datatype request =
    FunctionCall string nat "json list"
  | MethodCall string int nat "json list"
  | NewObject string nat "json list"
  | DisposeObject nat int
  | DisposeObservable nat

fun requestId :: "request \<Rightarrow> nat" where
  "requestId (FunctionCall functionName r args) = r"
| "requestId (MethodCall methodName objectId r args) = r"
| "requestId (NewObject interfaceName r args) = r"
| "requestId (DisposeObject r objectId) = r"
| "requestId (DisposeObservable r) = r"

definition protocol :: "request \<Rightarrow> string" where
  "protocol m = ''service_framework3_rpc''"

text \<open>
  An inbound message, as \<open>_handleSocketMessage\<close> destructures it. \<open>response_id\<close> is the
  \<open>requestId\<close> field, a non-negative integer echoed by the server; the emitter's event name
  is its decimal text, which determines the number, so listeners are keyed by the number.
\<close>

record response =
  channel :: json
  response_protocol :: json
  response_id :: nat
  hadError :: json
  error :: json
  result :: json

text \<open>A template string: literal text with numbers to be printed in place.\<close>

datatype part = Text string | Number int

type_synonym template = "part list"

subsection \<open>State\<close>

datatype failure = AssertionError | TypeError | SyntaxError | UnknownReturnType string

datatype reason = Remote decoded | TimeoutText template

datatype settlement = Pending | Resolved json | Rejected reason

datatype notification = OnNext json | OnError decoded | OnCompleted

text \<open>
  A listener registered on the emitter is one of the two closures of
  \<open>_sendMessageAndListenForResult\<close>: the one that settles the promise of a promise call, or
  the one that feeds the observer of one subscription. The number names the promise or the
  subscription, which is created with the closure, so no two listeners are equal.
\<close>

datatype listener = PromiseListener nat | ObserverListener nat

text \<open>
  One subscription to a returned observable: the \<open>requestId\<close> its closures hold, what its
  observer has been given, and the two flags of the library's subscription object (an observer
  that has been stopped takes nothing more; the dispose function runs at most once).
\<close>

record subscription =
  sub_requestId :: nat
  received :: "notification list"
  isStopped :: bool
  isDisposed :: bool

record timer =
  timer_requestId :: nat
  timer_promise :: nat
  timer_message :: template

datatype level = Debug | Info | Warn | Error | Fatal

text \<open>
  The component's state: the counter, the emitter's listeners in registration order (event,
  once-flag, listener), the messages handed to \<open>this._socket.send\<close> in order, the promises
  and observables returned to callers, the subscriptions to those observables, the timers
  set by \<open>setTimeout\<close> and not yet fired, and the calls to the logger.
\<close>

record client =
  rpcRequestId :: nat
  emitter :: "(nat \<times> bool \<times> listener) list"
  sent :: "request list"
  promises :: "settlement list"
  observables :: "request list"
  subs :: "subscription list"
  timers :: "timer list"
  logged :: "(level \<times> string) list"

text \<open>
  The constructor: \<open>this._rpcRequestId = 1\<close> and a new emitter. (Loading the service
  definitions into the type registry is outside this model.)
\<close>

definition constructor :: client where
  "constructor = \<lparr>rpcRequestId = 1, emitter = [], sent = [], promises = [],
     observables = [], subs = [], timers = [], logged = []\<rparr>"

subsection \<open>Request identifiers\<close>

text \<open>
  \<open>return this._rpcRequestId++\<close> on a JavaScript number. The counter starts at 1 and only
  this function changes it, so it is an integer between 1 and \<open>2 ^ 53\<close>; there \<open>x + 1\<close> is
  exact below \<open>2 ^ 53\<close>, and \<open>2 ^ 53 + 1\<close> rounds back to \<open>2 ^ 53\<close>.
\<close>

definition js_increment :: "nat \<Rightarrow> nat" where
  "js_increment x = (if x < 2 ^ 53 then x + 1 else x)"

definition generateRequestId :: "client \<Rightarrow> nat \<times> client" where
  "generateRequestId s = (rpcRequestId s, s\<lparr>rpcRequestId := js_increment (rpcRequestId s)\<rparr>)"

subsection \<open>Socket, emitter, promises\<close>

definition socket_send :: "client \<Rightarrow> request \<Rightarrow> client" where
  "socket_send s m = s\<lparr>sent := sent s @ [m]\<rparr>"

definition listeners :: "client \<Rightarrow> nat \<Rightarrow> (bool \<times> listener) list" where
  "listeners s name = map snd (filter (\<lambda>e. fst e = name) (emitter s))"

definition emitter_once :: "client \<Rightarrow> nat \<Rightarrow> listener \<Rightarrow> client" where
  "emitter_once s name l = s\<lparr>emitter := emitter s @ [(name, True, l)]\<rparr>"

definition emitter_on :: "client \<Rightarrow> nat \<Rightarrow> listener \<Rightarrow> client" where
  "emitter_on s name l = s\<lparr>emitter := emitter s @ [(name, False, l)]\<rparr>"

definition removeAllListeners :: "client \<Rightarrow> nat \<Rightarrow> client" where
  "removeAllListeners s name = s\<lparr>emitter := filter (\<lambda>e. fst e \<noteq> name) (emitter s)\<rparr>"

text \<open>\<open>resolve\<close> and \<open>reject\<close> of a promise: only a pending promise changes.\<close>

definition settle :: "client \<Rightarrow> nat \<Rightarrow> settlement \<Rightarrow> client" where
  "settle s p v =
     (if p < length (promises s) \<and> promises s ! p = Pending
      then s\<lparr>promises := (promises s)[p := v]\<rparr> else s)"

subsection \<open>Observers\<close>

text \<open>
  The dispose function returned to \<open>Observable.create\<close>:
  \<^verbatim>\<open>
  return () => {
    this._emitter.removeAllListeners(message.requestId.toString());
    const disposeMessage = {protocol: 'service_framework3_rpc',
      type: 'DisposeObservable', requestId: message.requestId};
    this._socket.send(disposeMessage);
  };
  \<close>
  As its comment says, the library calls it on subscription dispose, on stream completion and
  on stream error; it calls it once per subscription.
\<close>

definition dispose :: "client \<Rightarrow> nat \<Rightarrow> client" where
  "dispose s h =
     (if isDisposed (subs s ! h) then s
      else let r = sub_requestId (subs s ! h);
               s1 = s\<lparr>subs := (subs s)[h := (subs s ! h)\<lparr>isDisposed := True\<rparr>]\<rparr>;
               s2 = removeAllListeners s1 r
           in socket_send s2 (DisposeObservable r))"

definition deliver :: "client \<Rightarrow> nat \<Rightarrow> notification \<Rightarrow> client" where
  "deliver s h n =
     s\<lparr>subs := (subs s)[h := (subs s ! h)\<lparr>received := received (subs s ! h) @ [n]\<rparr>]\<rparr>"

definition stop :: "client \<Rightarrow> nat \<Rightarrow> client" where
  "stop s h = s\<lparr>subs := (subs s)[h := (subs s ! h)\<lparr>isStopped := True\<rparr>]\<rparr>"

definition observer_onNext :: "client \<Rightarrow> nat \<Rightarrow> json \<Rightarrow> client" where
  "observer_onNext s h v = (if isStopped (subs s ! h) then s else deliver s h (OnNext v))"

definition observer_onError :: "client \<Rightarrow> nat \<Rightarrow> decoded \<Rightarrow> client" where
  "observer_onError s h e =
     (if isStopped (subs s ! h) then s else dispose (deliver (stop s h) h (OnError e)) h)"

definition observer_onCompleted :: "client \<Rightarrow> nat \<Rightarrow> client" where
  "observer_onCompleted s h =
     (if isStopped (subs s ! h) then s else dispose (deliver (stop s h) h OnCompleted) h)"

subsection \<open>Receiving\<close>

text \<open>
  The two listeners. For a promise call:
  \<^verbatim>\<open>
  (hadError, error, result) => {
    hadError ? reject(decodeError(error)) : resolve(result);
  }
  \<close>
  For a subscription:
  \<^verbatim>\<open>
  (hadError, error, result) => {
    if (hadError) {
      observer.onError(decodeError(error));
    } else {
      invariant(result);
      if (result.type === 'completed') {
        observer.onCompleted();
      } else if (result.type === 'next') {
        observer.onNext(result.data);
      }
    }
  }
  \<close>
  A listener returns the new state and the exception it threw, if any. (The listener of a
  subscription exists only with its subscription; for a number that names none the state
  is left as it is.)
\<close>

fun invoke :: "client \<Rightarrow> listener \<Rightarrow> json \<Rightarrow> json \<Rightarrow> json \<Rightarrow> client \<times> failure option" where
  "invoke s (PromiseListener p) hadErr err res =
     (if truthy hadErr then (settle s p (Rejected (Remote (decodeError err))), None)
      else (settle s p (Resolved res), None))"
| "invoke s (ObserverListener h) hadErr err res =
     (if \<not> h < length (subs s) then (s, None)
      else if truthy hadErr then (observer_onError s h (decodeError err), None)
      else if \<not> truthy res then (s, Some AssertionError)
      else if get_prop res ''type'' = JStr ''completed'' then (observer_onCompleted s h, None)
      else if get_prop res ''type'' = JStr ''next''
        then (observer_onNext s h (get_prop res ''data''), None)
      else (s, None))"

text \<open>
  \<open>emitter.emit(name, hadError, error, result)\<close>: the listeners registered for the event at
  the time of the call are invoked in registration order; a \<open>once\<close> listener is taken off
  the emitter just before it runs; an exception ends the call.
\<close>

fun emit_loop ::
  "client \<Rightarrow> nat \<Rightarrow> (bool \<times> listener) list \<Rightarrow> json \<Rightarrow> json \<Rightarrow> json \<Rightarrow> client \<times> failure option"
where
  "emit_loop s name [] hadErr err res = (s, None)"
| "emit_loop s name ((once, l) # ls) hadErr err res =
     (let s1 = (if once then s\<lparr>emitter := remove1 (name, True, l) (emitter s)\<rparr> else s)
      in case invoke s1 l hadErr err res of
           (s2, Some e) \<Rightarrow> (s2, Some e)
         | (s2, None) \<Rightarrow> emit_loop s2 name ls hadErr err res)"

definition emit :: "client \<Rightarrow> nat \<Rightarrow> json \<Rightarrow> json \<Rightarrow> json \<Rightarrow> client \<times> failure option" where
  "emit s name hadErr err res = emit_loop s name (listeners s name) hadErr err res"

text \<open>
  \<^verbatim>\<open>
  _handleSocketMessage(message: any): void {
    const {channel} = message;
    invariant(channel === SERVICE_FRAMEWORK3_CHANNEL);
    const {requestId, hadError, error, result} = message;
    this._emitter.emit(requestId.toString(), hadError, error, result);
  }
  \<close>
\<close>

definition handleSocketMessage :: "config \<Rightarrow> client \<Rightarrow> response \<Rightarrow> client \<times> failure option" where
  "handleSocketMessage cfg s message =
     (if channel message \<noteq> JStr (SERVICE_FRAMEWORK3_CHANNEL cfg) then (s, Some AssertionError)
      else emit s (response_id message) (hadError message) (error message) (result message))"

subsection \<open>Sending\<close>

text \<open>What a call gives back to its caller.\<close>

datatype returned =
    ReturnedUndefined
  | ReturnedPromise nat
  | ReturnedObservable nat
  | Thrown failure

text \<open>
  The text of the timeout rejection:
  \<^verbatim>\<open>
  `Timeout after ${SERVICE_FRAMEWORK_RPC_TIMEOUT_MS} for requestId: ` +
  `${message.requestId}, ${timeoutMessage}.`
  \<close>
\<close>

definition timeout_text :: "config \<Rightarrow> nat \<Rightarrow> template \<Rightarrow> template" where
  "timeout_text cfg r timeoutMessage =
     [Text ''Timeout after '', Number (int (SERVICE_FRAMEWORK_RPC_TIMEOUT_MS cfg)),
      Text '' for requestId: '', Number (int r), Text '', ''] @ timeoutMessage @ [Text ''.'']"

text \<open>
  \<open>_sendMessageAndListenForResult(message, returnType, timeoutMessage)\<close>. The executor of
  \<open>new Promise\<close> runs at once, so a promise call sends, registers its \<open>once\<close> listener and
  sets its timer before it returns. The function given to \<open>Observable.create\<close> runs at each
  subscription (\<open>subscribe\<close> below), so an observable call only returns the observable.
\<close>

definition sendMessageAndListenForResult ::
  "client \<Rightarrow> request \<Rightarrow> string \<Rightarrow> template \<Rightarrow> client \<times> returned"
where
  "sendMessageAndListenForResult s message returnType timeoutMessage =
     (if returnType = ''void'' then (socket_send s message, ReturnedUndefined)
      else if returnType = ''promise'' then
        (let p = length (promises s);
             s1 = s\<lparr>promises := promises s @ [Pending]\<rparr>;
             s2 = socket_send s1 message;
             s3 = emitter_once s2 (requestId message) (PromiseListener p);
             s4 = s3\<lparr>timers := timers s3 @
                    [\<lparr>timer_requestId = requestId message, timer_promise = p,
                      timer_message = timeoutMessage\<rparr>]\<rparr>
         in (s4, ReturnedPromise p))
      else if returnType = ''observable'' then
        (s\<lparr>observables := observables s @ [message]\<rparr>, ReturnedObservable (length (observables s)))
      else (s, Thrown (UnknownReturnType returnType)))"

definition callRemoteFunction ::
  "client \<Rightarrow> string \<Rightarrow> string \<Rightarrow> json list \<Rightarrow> client \<times> returned"
where
  "callRemoteFunction s functionName returnType args =
     (let (r, s1) = generateRequestId s
      in sendMessageAndListenForResult s1 (FunctionCall functionName r args) returnType
           [Text ''Calling function '', Text functionName])"

definition callRemoteMethod ::
  "client \<Rightarrow> int \<Rightarrow> string \<Rightarrow> string \<Rightarrow> json list \<Rightarrow> client \<times> returned"
where
  "callRemoteMethod s objectId methodName returnType args =
     (let (r, s1) = generateRequestId s
      in sendMessageAndListenForResult s1 (MethodCall methodName objectId r args) returnType
           [Text ''Calling remote method '', Text methodName, Text ''.''])"

definition createRemoteObject :: "client \<Rightarrow> string \<Rightarrow> json list \<Rightarrow> client \<times> returned" where
  "createRemoteObject s interfaceName args =
     (let (r, s1) = generateRequestId s
      in sendMessageAndListenForResult s1 (NewObject interfaceName r args) ''promise''
           [Text ''Creating instance of '', Text interfaceName])"

definition disposeRemoteObject :: "client \<Rightarrow> int \<Rightarrow> client \<times> returned" where
  "disposeRemoteObject s objectId =
     (let (r, s1) = generateRequestId s
      in sendMessageAndListenForResult s1 (DisposeObject r objectId) ''promise''
           [Text ''Disposing object '', Number objectId])"

text \<open>
  Subscribing to observable \<open>ob\<close> runs the function given to \<open>Observable.create\<close>: it sends
  the message and registers the listener of the new subscription. (Without an observable
  \<open>ob\<close> there is nothing to subscribe to.)
\<close>

definition subscribe :: "client \<Rightarrow> nat \<Rightarrow> client" where
  "subscribe s ob =
     (if \<not> ob < length (observables s) then s
      else let message = observables s ! ob;
               h = length (subs s);
               s1 = s\<lparr>subs := subs s @ [\<lparr>sub_requestId = requestId message, received = [],
                                         isStopped = False, isDisposed = False\<rparr>]\<rparr>;
               s2 = socket_send s1 message
           in emitter_on s2 (requestId message) (ObserverListener h))"

text \<open>Disposing subscription \<open>h\<close>: its observer is stopped and the dispose function runs.\<close>

definition unsubscribe :: "client \<Rightarrow> nat \<Rightarrow> client" where
  "unsubscribe s h = (if \<not> h < length (subs s) then s else dispose (stop s h) h)"

text \<open>
  The timer callback of a promise call:
  \<^verbatim>\<open>
  setTimeout(() => {
    this._emitter.removeAllListeners(message.requestId.toString());
    reject(`Timeout after ...`);
  }, SERVICE_FRAMEWORK_RPC_TIMEOUT_MS);
  \<close>
  \<open>timerFires s i\<close> is the firing of the \<open>i\<close>-th pending timer (any pending timer may
  be the next to fire; without an \<open>i\<close>-th timer nothing happens). Nothing clears a timer,
  so it fires whether or not a response has come.
\<close>

definition timerFires :: "config \<Rightarrow> client \<Rightarrow> nat \<Rightarrow> client" where
  "timerFires cfg s i =
     (if \<not> i < length (timers s) then s
      else let t = timers s ! i;
               s1 = s\<lparr>timers := take i (timers s) @ drop (Suc i) (timers s)\<rparr>;
               s2 = removeAllListeners s1 (timer_requestId t)
           in settle s2 (timer_promise t)
                (Rejected (TimeoutText (timeout_text cfg (timer_requestId t) (timer_message t)))))"

subsection \<open>Runs of the client\<close>

datatype client_event =
    CallRemoteFunction string string "json list"
  | CallRemoteMethod int string string "json list"
  | CreateRemoteObject string "json list"
  | DisposeRemoteObject int
  | Subscribe nat
  | Unsubscribe nat
  | SocketMessage response
  | TimerFires nat

text \<open>One event; an exception leaves the state as it was when it was thrown.\<close>

fun client_step :: "config \<Rightarrow> client \<Rightarrow> client_event \<Rightarrow> client" where
  "client_step cfg s (CallRemoteFunction f rt args) = fst (callRemoteFunction s f rt args)"
| "client_step cfg s (CallRemoteMethod ob m rt args) = fst (callRemoteMethod s ob m rt args)"
| "client_step cfg s (CreateRemoteObject i args) = fst (createRemoteObject s i args)"
| "client_step cfg s (DisposeRemoteObject ob) = fst (disposeRemoteObject s ob)"
| "client_step cfg s (Subscribe ob) = subscribe s ob"
| "client_step cfg s (Unsubscribe h) = unsubscribe s h"
| "client_step cfg s (SocketMessage m) = fst (handleSocketMessage cfg s m)"
| "client_step cfg s (TimerFires i) = timerFires cfg s i"

definition client_run :: "config \<Rightarrow> client \<Rightarrow> client_event list \<Rightarrow> client" where
  "client_run cfg s es = foldl (client_step cfg) s es"

subsection \<open>Invariants of the client\<close>

text \<open>
  What handling an inbound message may change: promises are settled, subscriptions are fed,
  stopped and disposed, listeners are removed, and \<open>DisposeObservable\<close> frames for existing
  subscriptions are sent. The counter, the observables, the timers and the log stay.
\<close>

definition receives :: "client \<Rightarrow> client \<Rightarrow> bool" where
  "receives s s' \<longleftrightarrow>
     rpcRequestId s' = rpcRequestId s \<and> observables s' = observables s \<and>
     timers s' = timers s \<and> logged s' = logged s \<and>
     length (promises s') = length (promises s) \<and>
     map sub_requestId (subs s') = map sub_requestId (subs s) \<and>
     set (emitter s') \<subseteq> set (emitter s) \<and>
     (\<exists>ds. sent s' = sent s @ ds \<and>
           (\<forall>m \<in> set ds. \<exists>r \<in> sub_requestId ` set (subs s). m = DisposeObservable r))"

text \<open>
  Every identifier in use has been generated: it is below the counter.
\<close>

definition ids_generated :: "client \<Rightarrow> bool" where
  "ids_generated s \<longleftrightarrow>
     (\<forall>m \<in> set (sent s). requestId m < rpcRequestId s) \<and>
     (\<forall>m \<in> set (observables s). requestId m < rpcRequestId s) \<and>
     (\<forall>x \<in> set (subs s). sub_requestId x < rpcRequestId s) \<and>
     (\<forall>e \<in> set (emitter s). fst e < rpcRequestId s) \<and>
     (\<forall>t \<in> set (timers s). timer_requestId t < rpcRequestId s)"

text \<open>
  The four operations that generate an identifier, and those among them that send their
  request frame before they return (the \<open>void\<close> and \<open>promise\<close> shapes).
\<close>

fun is_call :: "client_event \<Rightarrow> bool" where
  "is_call (CallRemoteFunction f rt args) = True"
| "is_call (CallRemoteMethod ob m rt args) = True"
| "is_call (CreateRemoteObject i args) = True"
| "is_call (DisposeRemoteObject ob) = True"
| "is_call e = False"

fun returnType_of :: "client_event \<Rightarrow> string" where
  "returnType_of (CallRemoteFunction f rt args) = rt"
| "returnType_of (CallRemoteMethod ob m rt args) = rt"
| "returnType_of (CreateRemoteObject i args) = ''promise''"
| "returnType_of (DisposeRemoteObject ob) = ''promise''"
| "returnType_of e = []"




text \<open>
  The identifier \<open>r\<close> is retired: it has been generated, nothing listens for it, and no
  observable would register a listener for it.
\<close>

definition retired :: "client \<Rightarrow> nat \<Rightarrow> bool" where
  "retired s r \<longleftrightarrow>
     listeners s r = [] \<and> r < rpcRequestId s \<and> (\<forall>m \<in> set (observables s). requestId m \<noteq> r)"


section \<open>The server's client sessions\<close>

subsection \<open>State\<close>

text \<open>
  \<open>_sendSocketMessage\<close> wraps each frame in a new object \<open>{data}\<close> and later looks for
  that very object in the queue; \<open>uid\<close> is the identity of the wrapper object.
\<close>

record message =
  uid :: nat
  data :: json

text \<open>
  \<^verbatim>\<open>
  export type SocketClient = {
    id: string;
    subscriptions: {[channel: string]: (event: any) => void};
    socket: ?ws$WebSocket;
    messageQueue: Array<{data: string}>;
  };
  \<close>
  A socket is named by a number; a subscription handler likewise.
\<close>

record SocketClient =
  clientId :: string
  subscriptions :: "(string \<times> nat) list"
  socket :: "nat option"
  messageQueue :: "message list"

text \<open>
  The server's state, as far as \<open>_onConnection\<close>, \<open>_onSocketMessage\<close> and
  \<open>_sendSocketMessage\<close> read and write it:
  \<^item> \<open>clients\<close>: \<open>this._clients\<close>;
  \<^item> \<open>connection k\<close>: the variable \<open>client\<close> in the closure of the \<open>_onConnection\<close>
    call for socket \<open>k\<close> (\<open>None\<close> is \<open>null\<close>), given as the client's identifier;
  \<^item> \<open>closedSockets\<close>: the sockets the server has called \<open>close()\<close> on;
  \<^item> \<open>outbox k\<close>: the frames handed to \<open>send\<close> of socket \<open>k\<close>, in order (each is sent as
    \<open>JSON.stringify(data)\<close>);
  \<^item> \<open>callbacks\<close>: the callbacks given to \<open>send\<close> that the socket layer has not called
    yet, each with its socket, its client and the wrapper it looks for;
  \<^item> \<open>fresh\<close>: the next unused wrapper identity;
  \<^item> \<open>handled\<close>: the calls of \<open>this._serverComponent.handleMessage(client, message)\<close>;
  \<^item> \<open>server_logged\<close>: the calls to the logger.
\<close>

record server =
  clients :: "string \<rightharpoonup> SocketClient"
  connection :: "nat \<rightharpoonup> string"
  closedSockets :: "nat list"
  outbox :: "nat \<Rightarrow> json list"
  callbacks :: "(nat \<times> string \<times> message) list"
  fresh :: nat
  handled :: "(string \<times> json) list"
  server_logged :: "(level \<times> string) list"

definition server_log :: "server \<Rightarrow> level \<Rightarrow> string \<Rightarrow> server" where
  "server_log s lv text = s\<lparr>server_logged := server_logged s @ [(lv, text)]\<rparr>"

subsection \<open>Sending\<close>

text \<open>
  \<^verbatim>\<open>
  _sendSocketMessage(client: SocketClient, data: any) {
    const message = {data};
    const {id, socket, messageQueue} = client;
    messageQueue.push(message);
    if (!socket) {
      return;
    }
    socket.send(JSON.stringify(data), (err) => { ... });
  }
  \<close>
  The client object is the one stored under its identifier (entries of \<open>_clients\<close> are never
  replaced or deleted), so the function takes the identifier; without a client object under
  the identifier there is nothing to call it with, and the state is left as it is.
\<close>

definition enqueue :: "server \<Rightarrow> string \<Rightarrow> SocketClient \<Rightarrow> json \<Rightarrow> server" where
  "enqueue s cid c d =
     s\<lparr>clients := (clients s)(cid \<mapsto> c\<lparr>messageQueue := messageQueue c @ [\<lparr>uid = fresh s, data = d\<rparr>]\<rparr>),
       fresh := Suc (fresh s)\<rparr>"

definition transmit :: "server \<Rightarrow> nat \<Rightarrow> string \<Rightarrow> message \<Rightarrow> server" where
  "transmit s k cid m =
     s\<lparr>outbox := (outbox s)(k := outbox s k @ [data m]),
       callbacks := callbacks s @ [(k, cid, m)]\<rparr>"

definition sendSocketMessage :: "server \<Rightarrow> string \<Rightarrow> json \<Rightarrow> server" where
  "sendSocketMessage s cid d =
     (case clients s cid of
        None \<Rightarrow> s
      | Some c \<Rightarrow>
          (let s1 = enqueue s cid c d
           in case socket c of
                None \<Rightarrow> s1
              | Some k \<Rightarrow> transmit s1 k cid \<lparr>uid = fresh s, data = d\<rparr>))"

text \<open>
  The callback given to \<open>send\<close>:
  \<^verbatim>\<open>
  (err) => {
    if (err) {
      logger.warn('Failed sending socket message to client:', id, data);
    } else {
      const messageIndex = messageQueue.indexOf(message);
      if (messageIndex !== -1) {
        messageQueue.splice(messageIndex, 1);
      }
    }
  }
  \<close>
  \<open>indexOf\<close> compares object identities.
\<close>

fun indexOf :: "message list \<Rightarrow> message \<Rightarrow> nat option" where
  "indexOf [] m = None"
| "indexOf (x # xs) m =
     (if uid x = uid m then Some 0 else map_option Suc (indexOf xs m))"

definition splice1 :: "'a list \<Rightarrow> nat \<Rightarrow> 'a list" where
  "splice1 xs i = take i xs @ drop (Suc i) xs"

definition sendCallback :: "server \<Rightarrow> string \<Rightarrow> message \<Rightarrow> bool \<Rightarrow> server" where
  "sendCallback s cid m err =
     (if err then server_log s Warn ''Failed sending socket message to client:''
      else case clients s cid of
             None \<Rightarrow> s
           | Some c \<Rightarrow>
               (case indexOf (messageQueue c) m of
                  None \<Rightarrow> s
                | Some i \<Rightarrow> s\<lparr>clients := (clients s)(cid \<mapsto> c\<lparr>messageQueue := splice1 (messageQueue c) i\<rparr>)\<rparr>))"

text \<open>
  The socket layer calls the \<open>i\<close>-th outstanding callback, with or without an error (any
  outstanding callback may be the next; without an \<open>i\<close>-th one nothing happens).
\<close>

definition callbackFires :: "server \<Rightarrow> nat \<Rightarrow> bool \<Rightarrow> server" where
  "callbackFires s i err =
     (if \<not> i < length (callbacks s) then s
      else let (k, cid, m) = callbacks s ! i
           in sendCallback (s\<lparr>callbacks := splice1 (callbacks s) i\<rparr>) cid m err)"

subsection \<open>Connections\<close>

text \<open>
  \<open>_onConnection(socket)\<close> logs, sets \<open>client = null\<close> and registers its handlers.
\<close>

definition onConnection :: "server \<Rightarrow> nat \<Rightarrow> server" where
  "onConnection s k = (server_log s Debug ''WebSocket connecting'')\<lparr>connection := (connection s)(k := None)\<rparr>"

text \<open>
  The handler of the socket's first message, which is the client's identifier. \<open>_clients\<close>
  is a plain object, so the lookup \<open>this._clients[clientId]\<close> also finds the properties it
  inherits (\<open>constructor\<close>, \<open>toString\<close>, \<open>__proto__\<close>, ...); the map \<open>clients\<close> holds
  the sessions only, and an identifier that names an inherited property and has no session
  is outside this model (the handler then takes the inherited value for the client and
  throws at \<open>client.messageQueue.splice(0)\<close>).
  \<^verbatim>\<open>
  socket.once('message', (clientId: string) => {
    client = this._clients[clientId] = this._clients[clientId] ||
        {subscriptions: {}, id: clientId, messageQueue: []};
    const localClient = client;
    if (client.socket) {
      client.socket.close();
      client.socket = null;
    }
    logger.info('Client #%s connecting with a new socket!', clientId);
    client.socket = socket;
    client.messageQueue.splice(0).
        forEach(message => this._sendSocketMessage(localClient, message.data));
    socket.on('message', (message) => this._onSocketMessage(localClient, message));
  });
  \<close>
\<close>

definition newClient :: "string \<Rightarrow> SocketClient" where
  "newClient cid = \<lparr>clientId = cid, subscriptions = [], socket = None, messageQueue = []\<rparr>"

definition closePrevious :: "server \<Rightarrow> SocketClient \<Rightarrow> server" where
  "closePrevious s c = (case socket c of None \<Rightarrow> s | Some old \<Rightarrow> s\<lparr>closedSockets := closedSockets s @ [old]\<rparr>)"

definition flush :: "server \<Rightarrow> string \<Rightarrow> message list \<Rightarrow> server" where
  "flush s cid ms = foldl (\<lambda>t m. sendSocketMessage t cid (data m)) s ms"

definition onFirstMessage :: "server \<Rightarrow> nat \<Rightarrow> string \<Rightarrow> server" where
  "onFirstMessage s k cid =
     (let c = (case clients s cid of Some c \<Rightarrow> c | None \<Rightarrow> newClient cid);
          s1 = closePrevious (s\<lparr>connection := (connection s)(k \<mapsto> cid)\<rparr>) c;
          s2 = server_log s1 Info ''Client #%s connecting with a new socket!'';
          s3 = s2\<lparr>clients := (clients s2)(cid \<mapsto> c\<lparr>socket := Some k, messageQueue := []\<rparr>)\<rparr>
      in flush s3 cid (messageQueue c))"

text \<open>
  \<^verbatim>\<open>
  socket.on('close', () => {
    if (!client) {
      return;
    }
    if (client.socket === socket) {
      client.socket = null;
    }
    logger.info('Client #%s closing a socket!', client.id);
  });
  \<close>
\<close>

definition onClose :: "server \<Rightarrow> nat \<Rightarrow> server" where
  "onClose s k =
     (case connection s k of
        None \<Rightarrow> s
      | Some cid \<Rightarrow>
          (case clients s cid of
             None \<Rightarrow> s
           | Some c \<Rightarrow>
               (let s1 = (if socket c = Some k
                          then s\<lparr>clients := (clients s)(cid \<mapsto> c\<lparr>socket := None\<rparr>)\<rparr> else s)
                in server_log s1 Info ''Client #%s closing a socket!'')))"

definition onError :: "server \<Rightarrow> nat \<Rightarrow> server" where
  "onError s k = server_log s Error ''Client #%s error: %s''"

text \<open>
  \<^verbatim>\<open>
  _onSocketMessage(client: SocketClient, message: any): void {
    message = JSON.parse(message);
    invariant(message.protocol && message.protocol === SERVICE_FRAMEWORK3_CHANNEL);
    this._serverComponent.handleMessage(client, message);
  }
  \<close>
  \<open>JSON_parse\<close> is the built-in parser: \<open>None\<close> where it throws. Reading a property of
  \<open>null\<close> throws as well.
\<close>

definition onSocketMessage ::
  "(string \<Rightarrow> json option) \<Rightarrow> config \<Rightarrow> server \<Rightarrow> string \<Rightarrow> string \<Rightarrow> server \<times> failure option"
where
  "onSocketMessage JSON_parse cfg s cid text =
     (case JSON_parse text of
        None \<Rightarrow> (s, Some SyntaxError)
      | Some msg \<Rightarrow>
          if msg = JNull \<or> msg = JUndefined then (s, Some TypeError)
          else if \<not> (truthy (get_prop msg ''protocol'') \<and>
                      get_prop msg ''protocol'' = JStr (SERVICE_FRAMEWORK3_CHANNEL cfg))
            then (s, Some AssertionError)
          else (s\<lparr>handled := handled s @ [(cid, msg)]\<rparr>, None))"

subsection \<open>Runs of the server\<close>

datatype server_event =
    Connection nat
  | Message nat string
  | Close nat
  | SocketError nat
  | SendSocketMessage string json
  | CallbackFires nat bool

text \<open>
  A message on socket \<open>k\<close> goes to the \<open>once\<close> handler if it is the first one on \<open>k\<close>, and
  to \<open>_onSocketMessage\<close> for the client of \<open>k\<close> otherwise.
\<close>

fun server_step :: "(string \<Rightarrow> json option) \<Rightarrow> config \<Rightarrow> server \<Rightarrow> server_event \<Rightarrow> server" where
  "server_step P cfg s (Connection k) = onConnection s k"
| "server_step P cfg s (Message k text) =
     (case connection s k of
        None \<Rightarrow> onFirstMessage s k text
      | Some cid \<Rightarrow> fst (onSocketMessage P cfg s cid text))"
| "server_step P cfg s (Close k) = onClose s k"
| "server_step P cfg s (SocketError k) = onError s k"
| "server_step P cfg s (SendSocketMessage cid d) = sendSocketMessage s cid d"
| "server_step P cfg s (CallbackFires i err) = callbackFires s i err"

text \<open>The server after its constructor: no clients.\<close>

definition newServer :: server where
  "newServer = \<lparr>clients = Map.empty, connection = Map.empty, closedSockets = [], outbox = (\<lambda>k. []),
     callbacks = [], fresh = 0, handled = [], server_logged = []\<rparr>"

definition server_run ::
  "(string \<Rightarrow> json option) \<Rightarrow> config \<Rightarrow> server \<Rightarrow> server_event list \<Rightarrow> server"
where
  "server_run P cfg s es = foldl (server_step P cfg) s es"

text \<open>Consecutive calls of \<open>_sendSocketMessage\<close> for one client.\<close>

definition sendSocketMessages :: "server \<Rightarrow> string \<Rightarrow> json list \<Rightarrow> server" where
  "sendSocketMessages s cid ds = foldl (\<lambda>t d. sendSocketMessage t cid d) s ds"

text \<open>
  Wrapper identities are handed out in increasing order: every wrapper in a queue or awaited
  by a callback is older than \<open>fresh\<close>, and no two callbacks await the same wrapper.
\<close>

definition identities_ok :: "server \<Rightarrow> bool" where
  "identities_ok s \<longleftrightarrow>
     (\<forall>x \<in> set (callbacks s). uid (snd (snd x)) < fresh s) \<and>
     distinct (map (\<lambda>x. uid (snd (snd x))) (callbacks s)) \<and>
     (\<forall>c \<in> ran (clients s). \<forall>m \<in> set (messageQueue c). uid m < fresh s)"

text \<open>No queue holds two wrappers with the same identity.\<close>

definition wrappers_distinct :: "server \<Rightarrow> bool" where
  "wrappers_distinct s \<longleftrightarrow> (\<forall>c \<in> ran (clients s). distinct (map uid (messageQueue c)))"

text \<open>
  A wrapper is held for a client when it is in the client's queue and no outstanding
  callback looks for it: it has not been handed to a socket, or its send has failed.
\<close>

definition held :: "server \<Rightarrow> string \<Rightarrow> message \<Rightarrow> bool" where
  "held s cid m \<longleftrightarrow>
     (case clients s cid of None \<Rightarrow> False | Some c \<Rightarrow> m \<in> set (messageQueue c)) \<and>
     uid m < fresh s \<and>
     (\<forall>x \<in> set (callbacks s). uid (snd (snd x)) \<noteq> uid m)"

text \<open>The event that attaches a socket to client \<open>cid\<close>: the first message of a socket.\<close>

definition attaches :: "server \<Rightarrow> string \<Rightarrow> server_event \<Rightarrow> bool" where
  "attaches s cid e \<longleftrightarrow> (case e of Message k text \<Rightarrow> connection s k = None \<and> text = cid | _ \<Rightarrow> False)"

subsection \<open>Example runs\<close>

definition example_config :: config where
  "example_config = \<lparr>SERVICE_FRAMEWORK3_CHANNEL = ''service_framework3_rpc'',
     SERVICE_FRAMEWORK_RPC_TIMEOUT_MS = 60000\<rparr>"

text \<open>A parser for the texts \<open>null\<close> and \<open>{}\<close>.\<close>

definition example_parse :: "string \<Rightarrow> json option" where
  "example_parse t = (if t = ''null'' then Some JNull else if t = ''{}'' then Some (JObj []) else None)"

text \<open>Client \<open>c\<close> connects on socket 1, the socket closes, and a frame is sent to \<open>c\<close>.\<close>

definition detached_example :: server where
  "detached_example = server_run example_parse example_config newServer
     [Connection 1, Message 1 ''c'', Close 1, SendSocketMessage ''c'' (JStr ''a'')]"

text \<open>Then \<open>c\<close> reconnects on socket 2, a second frame is sent, and socket 3 connects.\<close>

definition attached_example :: server where
  "attached_example = server_run example_parse example_config detached_example
     [Connection 2, Message 2 ''c'', SendSocketMessage ''c'' (JStr ''b''), Connection 3]"

text \<open>Client \<open>c\<close> connects on socket 1 and again on socket 2 while socket 1 is attached.\<close>


definition superseded_example :: server where
  "superseded_example = server_run example_parse example_config newServer
     [Connection 1, Message 1 ''c'', Connection 2, Message 2 ''c'']"

text \<open>
  An observable call, a promise call, and then a subscription to the observable of the
  first call.
\<close>

definition cold_example :: client where
  "cold_example = client_run example_config constructor
     [CallRemoteFunction ''f'' ''observable'' [], CallRemoteFunction ''g'' ''promise'' [],
      Subscribe 0]"

text \<open>The reply \<open>{requestId: 1, hadError: false, result: 5}\<close> on the RPC channel, without a protocol.\<close>

definition reply_example :: response where
  "reply_example = \<lparr>channel = JStr ''service_framework3_rpc'', response_protocol = JUndefined,
     response_id = 1, hadError = JBool False, error = JUndefined, result = JNum 5\<rparr>"

text \<open>The promise call \<open>add(2, 3)\<close>, and the same followed by its reply.\<close>

definition called_example :: client where
  "called_example = client_run example_config constructor
     [CallRemoteFunction ''add'' ''promise'' [JNum 2, JNum 3]]"

definition replied_example :: client where
  "replied_example = client_run example_config called_example [SocketMessage reply_example]"

text \<open>An observable call and a subscription to its observable.\<close>

definition subscribed_example :: client where
  "subscribed_example = client_run example_config constructor
     [CallRemoteFunction ''tail'' ''observable'' [JStr ''path''], Subscribe 0]"

section \<open>Properties of decodeError\<close>

text \<open>
  Claim C8. An encoded error that is a non-null object is decoded to an \<open>Error\<close> whose
  \<open>message\<close>, \<open>code\<close> and \<open>stack\<close> are those of the encoded object; when the encoded
  object has no \<open>code\<close>, the \<open>code\<close> of the result is \<open>undefined\<close>. An encoded error that
  is not an object is returned unchanged.
\<close>

theorem decodeError_reconstructs:
  "(is_object e \<longrightarrow>
      decodeError e =
        ErrorObject (get_prop e ''message'') (get_prop e ''code'') (get_prop e ''stack'')) \<and>
   (map_of fs ''code'' = None \<longrightarrow> error_code (decodeError (JObj fs)) = JUndefined) \<and>
   (\<not> is_object e \<longrightarrow> decodeError e = AsIs e)"
  by (cases e) (simp_all add: decodeError_def)

theorem decodeError_reconstructs_witness:
  "is_object (JObj [(''message'', JStr ''boom''), (''code'', JStr ''EBOOM'')]) \<and>
   decodeError (JObj [(''message'', JStr ''boom''), (''code'', JStr ''EBOOM'')]) =
     ErrorObject (JStr ''boom'') (JStr ''EBOOM'') JUndefined \<and>
   map_of [(''message'', JStr ''boom'')] ''code'' = None \<and>
   error_code (decodeError (JObj [(''message'', JStr ''boom'')])) = JUndefined \<and>
   \<not> is_object (JStr ''boom'') \<and>
   decodeError (JStr ''boom'') = AsIs (JStr ''boom'')"
  using decodeError_reconstructs
          [of "JObj [(''message'', JStr ''boom''), (''code'', JStr ''EBOOM'')]"
              "[(''message'', JStr ''boom'')]"]
        decodeError_reconstructs [of "JStr ''boom''" "[]"]
  by simp

section \<open>Properties of the client component\<close>

subsection \<open>What receiving changes\<close>

lemma map_update_same:
  "(\<And>x. f (g x) = f x) \<Longrightarrow> map f (xs[i := g (xs ! i)]) = map f xs"
proof (induction xs arbitrary: i)
  case Nil
  then show ?case by simp
next
  case (Cons x xs)
  then show ?case by (cases i) simp_all
qed

lemma receives_refl: "receives s s"
  by (simp add: receives_def)

lemma receives_trans:
  assumes "receives s t" "receives t u"
  shows "receives s u"
proof -
  from assms(1) obtain ds where ds: "sent t = sent s @ ds"
    "\<forall>m \<in> set ds. \<exists>r \<in> sub_requestId ` set (subs s). m = DisposeObservable r"
    by (auto simp: receives_def)
  from assms(2) obtain es where es: "sent u = sent t @ es"
    "\<forall>m \<in> set es. \<exists>r \<in> sub_requestId ` set (subs t). m = DisposeObservable r"
    by (auto simp: receives_def)
  have "map sub_requestId (subs t) = map sub_requestId (subs s)"
    using assms(1) by (simp add: receives_def)
  then have "sub_requestId ` set (subs t) = sub_requestId ` set (subs s)"
    by (metis list.set_map)
  with ds es have "sent u = sent s @ (ds @ es) \<and>
      (\<forall>m \<in> set (ds @ es). \<exists>r \<in> sub_requestId ` set (subs s). m = DisposeObservable r)"
    by auto
  then have "\<exists>ds. sent u = sent s @ ds \<and>
      (\<forall>m \<in> set ds. \<exists>r \<in> sub_requestId ` set (subs s). m = DisposeObservable r)"
    by blast
  then show ?thesis using assms by (simp add: receives_def) blast
qed

lemma receives_settle: "receives s (settle s p v)"
  by (simp add: receives_def settle_def)

lemma receives_stop: "receives s (stop s h)"
  by (simp add: receives_def stop_def map_update_same)

lemma receives_deliver: "receives s (deliver s h n)"
  by (simp add: receives_def deliver_def map_update_same)

lemma receives_dispose:
  assumes "h < length (subs s)"
  shows "receives s (dispose s h)"
proof (cases "isDisposed (subs s ! h)")
  case True
  then show ?thesis by (simp add: dispose_def receives_refl)
next
  case False
  have "sub_requestId (subs s ! h) \<in> sub_requestId ` set (subs s)"
    using assms by simp
  then show ?thesis using False
    by (auto simp: dispose_def receives_def Let_def removeAllListeners_def socket_send_def
          map_update_same)
qed

lemma length_subs_stop [simp]: "length (subs (stop s h)) = length (subs s)"
  by (simp add: stop_def)

lemma length_subs_deliver [simp]: "length (subs (deliver s h n)) = length (subs s)"
  by (simp add: deliver_def)

lemma receives_onNext: "receives s (observer_onNext s h v)"
  by (simp add: observer_onNext_def receives_refl receives_deliver)

lemma receives_onError:
  assumes "h < length (subs s)"
  shows "receives s (observer_onError s h e)"
proof (cases "isStopped (subs s ! h)")
  case True
  then show ?thesis by (simp add: observer_onError_def receives_refl)
next
  case False
  have "receives s (deliver (stop s h) h (OnError e))"
    using receives_trans [OF receives_stop receives_deliver] .
  moreover have "receives (deliver (stop s h) h (OnError e)) (dispose (deliver (stop s h) h (OnError e)) h)"
    using assms by (intro receives_dispose) simp
  ultimately show ?thesis using False
    by (simp add: observer_onError_def) (rule receives_trans)
qed

lemma receives_onCompleted:
  assumes "h < length (subs s)"
  shows "receives s (observer_onCompleted s h)"
proof (cases "isStopped (subs s ! h)")
  case True
  then show ?thesis by (simp add: observer_onCompleted_def receives_refl)
next
  case False
  have "receives s (deliver (stop s h) h OnCompleted)"
    using receives_trans [OF receives_stop receives_deliver] .
  moreover have "receives (deliver (stop s h) h OnCompleted) (dispose (deliver (stop s h) h OnCompleted) h)"
    using assms by (intro receives_dispose) simp
  ultimately show ?thesis using False
    by (simp add: observer_onCompleted_def) (rule receives_trans)
qed

lemma receives_invoke: "receives s (fst (invoke s l hadErr err res))"
proof (cases l)
  case (PromiseListener p)
  then show ?thesis by (simp add: receives_settle)
next
  case (ObserverListener h)
  then show ?thesis
    by (simp add: receives_refl receives_onError receives_onCompleted receives_onNext)
qed

lemma receives_once_removed:
  "receives s (s\<lparr>emitter := remove1 x (emitter s)\<rparr>)"
  using set_remove1_subset [of x "emitter s"] by (simp add: receives_def)

lemma receives_emit_loop: "receives s (fst (emit_loop s name ls hadErr err res))"
proof (induction ls arbitrary: s)
  case Nil
  then show ?case by (simp add: receives_refl)
next
  case (Cons a ls)
  obtain once l where a: "a = (once, l)" by (cases a)
  let ?s1 = "if once then s\<lparr>emitter := remove1 (name, True, l) (emitter s)\<rparr> else s"
  have r1: "receives s ?s1" by (simp add: receives_refl receives_once_removed)
  obtain s2 x where i: "invoke ?s1 l hadErr err res = (s2, x)" by (cases "invoke ?s1 l hadErr err res")
  have r2: "receives ?s1 s2" using receives_invoke [of ?s1 l hadErr err res] i by simp
  have r12: "receives s s2" using receives_trans [OF r1 r2] .
  show ?case
  proof (cases x)
    case None
    have "receives s2 (fst (emit_loop s2 name ls hadErr err res))" by (rule Cons.IH)
    with r12 have "receives s (fst (emit_loop s2 name ls hadErr err res))" by (rule receives_trans)
    then show ?thesis using a i None by (simp add: Let_def)
  next
    case (Some e)
    then show ?thesis using a i r12 by (simp add: Let_def)
  qed
qed

lemma receives_handleSocketMessage: "receives s (fst (handleSocketMessage cfg s m))"
  by (simp add: handleSocketMessage_def emit_def receives_refl receives_emit_loop)


lemma ids_generated_receives:
  assumes "receives s s'" "ids_generated s"
  shows "ids_generated s'"
proof -
  have c: "rpcRequestId s' = rpcRequestId s" using assms(1) by (simp add: receives_def)
  have "map sub_requestId (subs s') = map sub_requestId (subs s)"
    using assms(1) by (simp add: receives_def)
  then have im: "sub_requestId ` set (subs s') = sub_requestId ` set (subs s)"
    by (metis list.set_map)
  have subs_lt: "\<forall>r \<in> sub_requestId ` set (subs s). r < rpcRequestId s"
    using assms(2) by (auto simp: ids_generated_def)
  from assms(1) obtain ds where ds: "sent s' = sent s @ ds"
    "\<forall>m \<in> set ds. \<exists>r \<in> sub_requestId ` set (subs s). m = DisposeObservable r"
    by (auto simp: receives_def)
  have a: "\<forall>m \<in> set (sent s'). requestId m < rpcRequestId s'"
  proof
    fix m assume "m \<in> set (sent s')"
    then consider "m \<in> set (sent s)" | "m \<in> set ds" using ds(1) by auto
    then show "requestId m < rpcRequestId s'"
    proof cases
      case 1
      then show ?thesis using assms(2) c by (simp add: ids_generated_def)
    next
      case 2
      then obtain r where "r \<in> sub_requestId ` set (subs s)" "m = DisposeObservable r"
        using ds(2) by blast
      then have "r < rpcRequestId s" using subs_lt by blast
      then show ?thesis using c \<open>m = DisposeObservable r\<close> by simp
    qed
  qed
  have b: "\<forall>m \<in> set (observables s'). requestId m < rpcRequestId s'"
    using assms by (simp add: receives_def ids_generated_def)
  have d: "\<forall>x \<in> set (subs s'). sub_requestId x < rpcRequestId s'"
  proof
    fix x assume "x \<in> set (subs s')"
    then have "sub_requestId x \<in> sub_requestId ` set (subs s)" using im by blast
    then have "sub_requestId x < rpcRequestId s" using subs_lt by blast
    then show "sub_requestId x < rpcRequestId s'" using c by simp
  qed
  have e: "\<forall>e \<in> set (emitter s'). fst e < rpcRequestId s'"
    using assms by (auto simp: receives_def ids_generated_def)
  have f: "\<forall>t \<in> set (timers s'). timer_requestId t < rpcRequestId s'"
    using assms by (simp add: receives_def ids_generated_def)
  from a b d e f show ?thesis by (simp add: ids_generated_def)
qed

lemma receives_unsubscribe: "receives s (unsubscribe s h)"
proof (cases "h < length (subs s)")
  case True
  have "receives (stop s h) (dispose (stop s h) h)"
    using True by (intro receives_dispose) simp
  with receives_stop have "receives s (dispose (stop s h) h)" by (rule receives_trans)
  then show ?thesis using True by (simp add: unsubscribe_def)
next
  case False
  then show ?thesis by (simp add: unsubscribe_def receives_refl)
qed

lemma ids_generated_timerFires: "ids_generated s \<Longrightarrow> ids_generated (timerFires cfg s i)"
proof -
  assume h: "ids_generated s"
  have "set (take i (timers s) @ drop (Suc i) (timers s)) \<subseteq> set (timers s)"
    using set_take_subset [of i "timers s"] set_drop_subset [of "Suc i" "timers s"] by auto
  then show ?thesis using h
    by (auto simp: ids_generated_def timerFires_def Let_def settle_def removeAllListeners_def)
qed

lemma ids_generated_subscribe: "ids_generated s \<Longrightarrow> ids_generated (subscribe s ob)"
  by (auto simp: ids_generated_def subscribe_def Let_def socket_send_def emitter_on_def)

lemma ids_generated_send:
  assumes "ids_generated s" "rpcRequestId s < 2 ^ 53" "requestId m = rpcRequestId s"
  shows "ids_generated
    (fst (sendMessageAndListenForResult (snd (generateRequestId s)) m rt tm))"
  using assms
  by (auto simp: ids_generated_def sendMessageAndListenForResult_def generateRequestId_def
        js_increment_def Let_def socket_send_def emitter_once_def intro: less_SucI)

lemma ids_generated_step:
  assumes "ids_generated s" "rpcRequestId s < 2 ^ 53"
  shows "ids_generated (client_step cfg s e)"
proof (cases e)
  case (CallRemoteFunction f rt args)
  then show ?thesis
    using ids_generated_send [OF assms, of "FunctionCall f (rpcRequestId s) args"]
    by (simp add: callRemoteFunction_def generateRequestId_def)
next
  case (CallRemoteMethod ob m rt args)
  then show ?thesis
    using ids_generated_send [OF assms, of "MethodCall m ob (rpcRequestId s) args"]
    by (simp add: callRemoteMethod_def generateRequestId_def)
next
  case (CreateRemoteObject i args)
  then show ?thesis
    using ids_generated_send [OF assms, of "NewObject i (rpcRequestId s) args"]
    by (simp add: createRemoteObject_def generateRequestId_def)
next
  case (DisposeRemoteObject ob)
  then show ?thesis
    using ids_generated_send [OF assms, of "DisposeObject (rpcRequestId s) ob"]
    by (simp add: disposeRemoteObject_def generateRequestId_def)
next
  case (Subscribe ob)
  then show ?thesis using assms(1) by (simp add: ids_generated_subscribe)
next
  case (Unsubscribe h)
  then show ?thesis using ids_generated_receives [OF receives_unsubscribe assms(1)] by simp
next
  case (SocketMessage m)
  then show ?thesis
    using ids_generated_receives [OF receives_handleSocketMessage assms(1)] by simp
next
  case (TimerFires i)
  then show ?thesis using assms(1) by (simp add: ids_generated_timerFires)
qed

lemma counter_send [simp]:
  "rpcRequestId (fst (sendMessageAndListenForResult s m rt tm)) = rpcRequestId s"
  by (simp add: sendMessageAndListenForResult_def Let_def socket_send_def emitter_once_def)

lemma counter_call:
  "is_call e \<Longrightarrow> rpcRequestId (client_step cfg s e) = js_increment (rpcRequestId s)"
  by (cases e)
    (simp_all add: callRemoteFunction_def callRemoteMethod_def createRemoteObject_def
       disposeRemoteObject_def generateRequestId_def)

lemma counter_other:
  assumes "\<not> is_call e"
  shows "rpcRequestId (client_step cfg s e) = rpcRequestId s"
proof (cases e)
  case (Subscribe ob)
  then show ?thesis by (simp add: subscribe_def Let_def socket_send_def emitter_on_def)
next
  case (Unsubscribe h)
  then show ?thesis using receives_unsubscribe [of s h] by (simp add: receives_def)
next
  case (SocketMessage m)
  then show ?thesis using receives_handleSocketMessage [of s cfg m] by (simp add: receives_def)
next
  case (TimerFires i)
  then show ?thesis by (simp add: timerFires_def Let_def settle_def removeAllListeners_def)
qed (use assms in simp_all)

lemma counter_mono: "rpcRequestId s \<le> rpcRequestId (client_step cfg s e)"
  using counter_call [of e cfg s] counter_other [of e cfg s]
  by (cases "is_call e") (simp_all add: js_increment_def)

lemma client_run_snoc: "client_run cfg s (es @ [e]) = client_step cfg (client_run cfg s es) e"
  by (simp add: client_run_def)

lemma ids_generated_run:
  "ids_generated s \<Longrightarrow> rpcRequestId (client_run cfg s es) < 2 ^ 53 \<Longrightarrow>
   ids_generated (client_run cfg s es)"
proof (induction es rule: rev_induct)
  case Nil
  then show ?case by (simp add: client_run_def)
next
  case (snoc e es)
  have "rpcRequestId (client_run cfg s es) \<le> rpcRequestId (client_run cfg s (es @ [e]))"
    unfolding client_run_snoc by (rule counter_mono)
  then have lt: "rpcRequestId (client_run cfg s es) < 2 ^ 53" using snoc.prems(2) by simp
  then have "ids_generated (client_run cfg s es)" using snoc.IH snoc.prems(1) by simp
  then show ?case unfolding client_run_snoc using lt by (rule ids_generated_step)
qed

lemma ids_generated_constructor: "ids_generated constructor"
  by (simp add: ids_generated_def constructor_def)

lemma immediate_call_sends:
  assumes "is_call e" "returnType_of e = ''void'' \<or> returnType_of e = ''promise''"
  shows "\<exists>m. sent (client_step cfg s e) = sent s @ [m] \<and> requestId m = rpcRequestId s"
  using assms
  by (cases e)
    (auto simp: callRemoteFunction_def callRemoteMethod_def createRemoteObject_def
       disposeRemoteObject_def generateRequestId_def sendMessageAndListenForResult_def
       Let_def socket_send_def emitter_once_def)

lemma observable_call_defers:
  assumes "is_call e" "returnType_of e = ''observable''"
  shows "sent (client_step cfg s e) = sent s \<and>
         (\<exists>m. observables (client_step cfg s e) = observables s @ [m] \<and>
              requestId m = rpcRequestId s)"
  using assms
  by (cases e)
    (auto simp: callRemoteFunction_def callRemoteMethod_def createRemoteObject_def
       disposeRemoteObject_def generateRequestId_def sendMessageAndListenForResult_def
       Let_def socket_send_def emitter_once_def)

lemma subscribe_sends:
  "ob < length (observables s) \<Longrightarrow> sent (subscribe s ob) = sent s @ [observables s ! ob]"
  by (simp add: subscribe_def Let_def socket_send_def emitter_on_def)

subsection \<open>Promises\<close>

lemma promises_stop [simp]: "promises (stop s h) = promises s"
  by (simp add: stop_def)

lemma promises_deliver [simp]: "promises (deliver s h n) = promises s"
  by (simp add: deliver_def)

lemma promises_dispose [simp]: "promises (dispose s h) = promises s"
  by (simp add: dispose_def Let_def removeAllListeners_def socket_send_def)

lemma promises_observer [simp]:
  "promises (observer_onNext s h v) = promises s"
  "promises (observer_onError s h e) = promises s"
  "promises (observer_onCompleted s h) = promises s"
  by (simp_all add: observer_onNext_def observer_onError_def observer_onCompleted_def)






lemma promises_generate [simp]: "promises (snd (generateRequestId s)) = promises s"
  by (simp add: generateRequestId_def)




lemma listeners_settle [simp]: "listeners (settle s p v) r = listeners s r"
  by (simp add: listeners_def settle_def)


lemma listeners_removeAll [simp]: "listeners (removeAllListeners s r) r = []"
  by (simp add: listeners_def removeAllListeners_def)


lemma late_frame_dropped:
  assumes "listeners s (response_id m) = []"
  shows "fst (handleSocketMessage cfg s m) = s"
  using assms by (simp add: handleSocketMessage_def emit_def)

subsection \<open>Subscriptions\<close>

lemma frozen_stop:
  "h < length (subs s) \<Longrightarrow> isStopped (subs s ! h) \<Longrightarrow>
   isStopped (subs (stop s h') ! h) \<and> received (subs (stop s h') ! h) = received (subs s ! h)"
  by (cases "h = h'") (simp_all add: stop_def)

lemma frozen_dispose:
  "h < length (subs s) \<Longrightarrow> isStopped (subs s ! h) \<Longrightarrow>
   isStopped (subs (dispose s h') ! h) \<and> received (subs (dispose s h') ! h) = received (subs s ! h)"
  by (cases "h = h'")
    (simp_all add: dispose_def Let_def removeAllListeners_def socket_send_def)

lemma frozen_deliver_other:
  "h < length (subs s) \<Longrightarrow> h' \<noteq> h \<Longrightarrow> subs (deliver s h' n) ! h = subs s ! h"
  by (simp add: deliver_def)

lemma frozen_stop_other:
  "h < length (subs s) \<Longrightarrow> h' \<noteq> h \<Longrightarrow> subs (stop s h') ! h = subs s ! h"
  by (simp add: stop_def)

lemma length_subs_dispose [simp]: "length (subs (dispose s h)) = length (subs s)"
  by (simp add: dispose_def Let_def removeAllListeners_def socket_send_def)

lemma frozen_observer:
  assumes "h < length (subs s)" "isStopped (subs s ! h)"
  shows "isStopped (subs (observer_onNext s h' v) ! h) \<and>
           received (subs (observer_onNext s h' v) ! h) = received (subs s ! h)"
    and "isStopped (subs (observer_onError s h' e) ! h) \<and>
           received (subs (observer_onError s h' e) ! h) = received (subs s ! h)"
    and "isStopped (subs (observer_onCompleted s h') ! h) \<and>
           received (subs (observer_onCompleted s h') ! h) = received (subs s ! h)"
proof -
  show "isStopped (subs (observer_onNext s h' v) ! h) \<and>
           received (subs (observer_onNext s h' v) ! h) = received (subs s ! h)"
    using assms by (cases "h' = h") (simp_all add: observer_onNext_def frozen_deliver_other)
next
  show "isStopped (subs (observer_onError s h' e) ! h) \<and>
           received (subs (observer_onError s h' e) ! h) = received (subs s ! h)"
  proof (cases "h' = h \<or> isStopped (subs s ! h')")
    case True
    then show ?thesis using assms by (auto simp: observer_onError_def)
  next
    case False
    let ?t = "deliver (stop s h') h' (OnError e)"
    have "subs ?t ! h = subs s ! h"
      using False assms(1) by (simp add: frozen_deliver_other frozen_stop_other)
    then have "h < length (subs ?t)" "isStopped (subs ?t ! h)"
      "received (subs ?t ! h) = received (subs s ! h)"
      using assms by simp_all
    then show ?thesis using False frozen_dispose [of h ?t h']
      by (simp add: observer_onError_def)
  qed
next
  show "isStopped (subs (observer_onCompleted s h') ! h) \<and>
           received (subs (observer_onCompleted s h') ! h) = received (subs s ! h)"
  proof (cases "h' = h \<or> isStopped (subs s ! h')")
    case True
    then show ?thesis using assms by (auto simp: observer_onCompleted_def)
  next
    case False
    let ?t = "deliver (stop s h') h' OnCompleted"
    have "subs ?t ! h = subs s ! h"
      using False assms(1) by (simp add: frozen_deliver_other frozen_stop_other)
    then have "h < length (subs ?t)" "isStopped (subs ?t ! h)"
      "received (subs ?t ! h) = received (subs s ! h)"
      using assms by simp_all
    then show ?thesis using False frozen_dispose [of h ?t h']
      by (simp add: observer_onCompleted_def)
  qed
qed

lemma subs_settle [simp]: "subs (settle s p v) = subs s"
  by (simp add: settle_def)

lemma frozen_invoke:
  assumes "h < length (subs s)" "isStopped (subs s ! h)"
  shows "isStopped (subs (fst (invoke s l hadErr err res)) ! h) \<and>
         received (subs (fst (invoke s l hadErr err res)) ! h) = received (subs s ! h)"
proof (cases l)
  case (PromiseListener p)
  then show ?thesis using assms by simp
next
  case (ObserverListener h')
  then show ?thesis using assms frozen_observer [OF assms] by simp
qed

lemma length_subs_receives: "receives s s' \<Longrightarrow> length (subs s') = length (subs s)"
  unfolding receives_def by (metis length_map)

lemma frozen_emit_loop:
  "h < length (subs s) \<Longrightarrow> isStopped (subs s ! h) \<Longrightarrow>
   isStopped (subs (fst (emit_loop s name ls hadErr err res)) ! h) \<and>
   received (subs (fst (emit_loop s name ls hadErr err res)) ! h) = received (subs s ! h)"
proof (induction ls arbitrary: s)
  case Nil
  then show ?case by simp
next
  case (Cons a ls)
  obtain once l where a: "a = (once, l)" by (cases a)
  let ?s1 = "if once then s\<lparr>emitter := remove1 (name, True, l) (emitter s)\<rparr> else s"
  obtain s2 x where i: "invoke ?s1 l hadErr err res = (s2, x)" by (cases "invoke ?s1 l hadErr err res")
  have p1: "h < length (subs ?s1)" "isStopped (subs ?s1 ! h)" "subs ?s1 = subs s"
    using Cons.prems by simp_all
  have e2: "isStopped (subs s2 ! h)" "received (subs s2 ! h) = received (subs s ! h)"
    using frozen_invoke [OF p1(1,2), of l hadErr err res] i p1(3) by simp_all
  have "length (subs s2) = length (subs ?s1)"
    using receives_invoke [of ?s1 l hadErr err res] i by (simp add: length_subs_receives)
  then have l2: "h < length (subs s2)" using p1(1) by simp
  show ?case
  proof (cases x)
    case None
    have "isStopped (subs (fst (emit_loop s2 name ls hadErr err res)) ! h) \<and>
      received (subs (fst (emit_loop s2 name ls hadErr err res)) ! h) = received (subs s2 ! h)"
      using l2 e2(1) by (rule Cons.IH)
    then show ?thesis using a i None e2 by (simp add: Let_def)
  next
    case (Some e)
    then show ?thesis using a i e2 by (simp add: Let_def)
  qed
qed

lemma subs_send:
  "subs (fst (sendMessageAndListenForResult s m rt tm)) = subs s"
  by (simp add: sendMessageAndListenForResult_def Let_def socket_send_def emitter_once_def)

lemma subs_generate [simp]: "subs (snd (generateRequestId s)) = subs s"
  by (simp add: generateRequestId_def)

lemma subs_call: "is_call e \<Longrightarrow> subs (client_step cfg s e) = subs s"
  by (cases e)
    (simp_all add: callRemoteFunction_def callRemoteMethod_def createRemoteObject_def
       disposeRemoteObject_def split_beta subs_send)

lemma frozen_step:
  assumes "h < length (subs s)" "isStopped (subs s ! h)"
  shows "h < length (subs (client_step cfg s e)) \<and>
         isStopped (subs (client_step cfg s e) ! h) \<and>
         received (subs (client_step cfg s e) ! h) = received (subs s ! h)"
proof (cases "is_call e")
  case True
  then show ?thesis using assms by (simp add: subs_call)
next
  case False
  show ?thesis
  proof (cases e)
    case (Subscribe ob)
    then show ?thesis using assms
      by (simp add: subscribe_def Let_def socket_send_def emitter_on_def nth_append)
  next
    case (Unsubscribe h')
    show ?thesis
    proof (cases "h' < length (subs s)")
      case True
      have "isStopped (subs (stop s h') ! h) \<and> received (subs (stop s h') ! h) = received (subs s ! h)"
        using assms by (rule frozen_stop)
      then show ?thesis
        using Unsubscribe True assms(1) frozen_dispose [of h "stop s h'" h']
        by (simp add: unsubscribe_def)
    next
      case False
      then show ?thesis using Unsubscribe assms by (simp add: unsubscribe_def)
    qed
  next
    case (SocketMessage m)
    have "length (subs (fst (handleSocketMessage cfg s m))) = length (subs s)"
      using receives_handleSocketMessage by (rule length_subs_receives)
    then show ?thesis using SocketMessage assms
      by (simp add: handleSocketMessage_def emit_def frozen_emit_loop)
  next
    case (TimerFires i)
    have "subs (timerFires cfg s i) = subs s"
      by (simp add: timerFires_def Let_def removeAllListeners_def)
    then show ?thesis using TimerFires assms by simp
  qed (use False in simp_all)
qed

lemma frozen_run:
  "h < length (subs s) \<Longrightarrow> isStopped (subs s ! h) \<Longrightarrow>
   received (subs (client_run cfg s es) ! h) = received (subs s ! h)"
proof (induction es arbitrary: s)
  case Nil
  then show ?case by (simp add: client_run_def)
next
  case (Cons e es)
  have "received (subs (client_run cfg (client_step cfg s e) es) ! h) =
        received (subs (client_step cfg s e) ! h)"
    using frozen_step [OF Cons.prems, of cfg e] by (intro Cons.IH) simp_all
  then show ?case using frozen_step [OF Cons.prems, of cfg e] by (simp add: client_run_def)
qed

lemma unsubscribe_active:
  assumes "h < length (subs s)" "\<not> isDisposed (subs s ! h)"
  shows "sent (unsubscribe s h) = sent s @ [DisposeObservable (sub_requestId (subs s ! h))]"
    and "listeners (unsubscribe s h) (sub_requestId (subs s ! h)) = []"
    and "isDisposed (subs (unsubscribe s h) ! h)"
    and "isStopped (subs (unsubscribe s h) ! h)"
    and "received (subs (unsubscribe s h) ! h) = received (subs s ! h)"
    and "length (subs (unsubscribe s h)) = length (subs s)"
  using assms
  by (simp_all add: unsubscribe_def dispose_def stop_def Let_def removeAllListeners_def
        socket_send_def listeners_def)

lemma unsubscribe_disposed:
  assumes "h < length (subs s)" "isDisposed (subs s ! h)" "isStopped (subs s ! h)"
  shows "unsubscribe s h = s"
proof -
  have "(subs s)[h := (subs s ! h)\<lparr>isStopped := True\<rparr>] = subs s"
    using assms by (simp add: list_update_same_conv)
  then show ?thesis using assms by (simp add: unsubscribe_def dispose_def stop_def)
qed

subsection \<open>Timers\<close>





subsection \<open>Calls in flight\<close>




lemma listeners_stop [simp]: "listeners (stop s h) r = listeners s r"
  by (simp add: listeners_def stop_def)

lemma listeners_deliver [simp]: "listeners (deliver s h n) r = listeners s r"
  by (simp add: listeners_def deliver_def)

lemma listeners_socket_send [simp]: "listeners (socket_send s m) r = listeners s r"
  by (simp add: listeners_def socket_send_def)


























subsection \<open>Retired identifiers\<close>

lemma listeners_empty_subset:
  assumes "listeners s r = []" "set (emitter s') \<subseteq> set (emitter s)"
  shows "listeners s' r = []"
proof -
  have "\<forall>e \<in> set (emitter s). fst e \<noteq> r"
    using assms(1) by (simp add: listeners_def filter_empty_conv)
  then have "\<forall>e \<in> set (emitter s'). fst e \<noteq> r" using assms(2) by blast
  then show ?thesis by (simp add: listeners_def filter_empty_conv)
qed

lemma retired_receives:
  assumes "receives s s'" "retired s r"
  shows "retired s' r"
proof -
  have "set (emitter s') \<subseteq> set (emitter s)" using assms(1) by (simp add: receives_def)
  moreover have "listeners s r = []" using assms(2) by (simp add: retired_def)
  ultimately have "listeners s' r = []" by (rule listeners_empty_subset [rotated])
  then show ?thesis using assms by (simp add: retired_def receives_def)
qed

lemma retired_send:
  assumes "retired s r" "requestId m \<noteq> r"
  shows "retired (fst (sendMessageAndListenForResult s m rt tm)) r"
  using assms
  by (simp add: retired_def sendMessageAndListenForResult_def Let_def socket_send_def
        emitter_once_def listeners_def)

lemma retired_generate:
  assumes "retired s r"
  shows "retired (snd (generateRequestId s)) r \<and> rpcRequestId s \<noteq> r"
  using assms by (simp add: retired_def generateRequestId_def js_increment_def listeners_def)

lemma retired_step:
  assumes "retired s r"
  shows "retired (client_step cfg s e) r"
proof -
  have g: "retired (snd (generateRequestId s)) r" and ne: "rpcRequestId s \<noteq> r"
    using retired_generate [OF assms] by simp_all
  show ?thesis
  proof (cases e)
    case (CallRemoteFunction f rt args)
    then show ?thesis
      using retired_send [OF g, of "FunctionCall f (rpcRequestId s) args"] ne
      by (simp add: callRemoteFunction_def generateRequestId_def)
  next
    case (CallRemoteMethod ob m rt args)
    then show ?thesis
      using retired_send [OF g, of "MethodCall m ob (rpcRequestId s) args"] ne
      by (simp add: callRemoteMethod_def generateRequestId_def)
  next
    case (CreateRemoteObject i args)
    then show ?thesis
      using retired_send [OF g, of "NewObject i (rpcRequestId s) args"] ne
      by (simp add: createRemoteObject_def generateRequestId_def)
  next
    case (DisposeRemoteObject ob)
    then show ?thesis
      using retired_send [OF g, of "DisposeObject (rpcRequestId s) ob"] ne
      by (simp add: disposeRemoteObject_def generateRequestId_def)
  next
    case (Subscribe ob)
    show ?thesis
    proof (cases "ob < length (observables s)")
      case True
      then have "requestId (observables s ! ob) \<noteq> r" using assms by (simp add: retired_def)
      then show ?thesis using assms True Subscribe
        by (simp add: retired_def subscribe_def Let_def socket_send_def emitter_on_def listeners_def)
    next
      case False
      then show ?thesis using assms Subscribe by (simp add: subscribe_def)
    qed
  next
    case (Unsubscribe h)
    then show ?thesis using retired_receives [OF receives_unsubscribe assms] by simp
  next
    case (SocketMessage m)
    then show ?thesis using retired_receives [OF receives_handleSocketMessage assms] by simp
  next
    case (TimerFires i)
    have "set (emitter (timerFires cfg s i)) \<subseteq> set (emitter s)"
      by (auto simp: timerFires_def Let_def settle_def removeAllListeners_def)
    moreover have "listeners s r = []" using assms by (simp add: retired_def)
    ultimately have "listeners (timerFires cfg s i) r = []"
      by (rule listeners_empty_subset [rotated])
    moreover have "rpcRequestId (timerFires cfg s i) = rpcRequestId s"
      "observables (timerFires cfg s i) = observables s"
      by (simp_all add: timerFires_def Let_def settle_def removeAllListeners_def)
    ultimately show ?thesis using assms TimerFires by (simp add: retired_def)
  qed
qed

lemma retired_run: "retired s r \<Longrightarrow> retired (client_run cfg s es) r"
  unfolding client_run_def by (induction es arbitrary: s) (simp_all add: retired_step)





lemmas client_defs = client_run_def constructor_def callRemoteFunction_def callRemoteMethod_def
  createRemoteObject_def disposeRemoteObject_def generateRequestId_def js_increment_def
  sendMessageAndListenForResult_def socket_send_def emitter_once_def emitter_on_def
  removeAllListeners_def settle_def subscribe_def unsubscribe_def dispose_def stop_def
  deliver_def observer_onNext_def observer_onError_def observer_onCompleted_def
  handleSocketMessage_def emit_def listeners_def timerFires_def timeout_text_def Let_def
  example_config_def cold_example_def reply_example_def called_example_def
  replied_example_def subscribed_example_def decodeError_def

subsection \<open>Request identifiers\<close>

text \<open>
  Claim C1 says that every request frame sent by the four operations has an identifier
  greater than that of every frame sent before. It fails for observable calls: the frame
  of an observable call is sent when the observable is subscribed to, which may be after
  later calls have sent theirs.
\<close>

theorem request_ids_counterexample:
  "sent cold_example = [FunctionCall ''g'' 2 [], FunctionCall ''f'' 1 []] \<and>
   \<not> sorted_wrt (<) (map requestId (sent cold_example))"
  by (simp add: client_defs)

text \<open>
  Claim C1, amended. In every state the component reaches from its constructor with the
  counter below \<open>2 ^ 53\<close>: the counter starts at 1 and each of the four operations takes
  its value as the identifier and adds one to it; a call of the \<open>void\<close> or \<open>promise\<close>
  shape sends its request frame before it returns, and the frame's identifier is greater
  than that of every frame sent before; a call of the \<open>observable\<close> shape sends nothing
  and returns an observable holding the request with the new identifier; each subscription
  to an observable sends the request it holds.
\<close>

theorem request_ids_increase:
  assumes "s = client_run cfg constructor es" "rpcRequestId s < 2 ^ 53"
  shows "rpcRequestId constructor = 1 \<and>
    (\<forall>e. is_call e \<longrightarrow> rpcRequestId (client_step cfg s e) = rpcRequestId s + 1) \<and>
    (\<forall>e. is_call e \<and> (returnType_of e = ''void'' \<or> returnType_of e = ''promise'') \<longrightarrow>
        (\<exists>m. sent (client_step cfg s e) = sent s @ [m] \<and> requestId m = rpcRequestId s \<and>
             (\<forall>m' \<in> set (sent s). requestId m' < requestId m))) \<and>
    (\<forall>e. is_call e \<and> returnType_of e = ''observable'' \<longrightarrow>
        sent (client_step cfg s e) = sent s \<and>
        (\<exists>m. observables (client_step cfg s e) = observables s @ [m] \<and>
             requestId m = rpcRequestId s)) \<and>
    (\<forall>ob. ob < length (observables s) \<longrightarrow> sent (subscribe s ob) = sent s @ [observables s ! ob])"
proof -
  have inv: "ids_generated s"
    using assms ids_generated_run [OF ids_generated_constructor, of cfg es] by simp
  have A: "rpcRequestId constructor = 1" by (simp add: constructor_def)
  have B: "\<forall>e. is_call e \<longrightarrow> rpcRequestId (client_step cfg s e) = rpcRequestId s + 1"
    using assms(2) by (simp add: counter_call js_increment_def)
  have C: "\<forall>e. is_call e \<and> (returnType_of e = ''void'' \<or> returnType_of e = ''promise'') \<longrightarrow>
        (\<exists>m. sent (client_step cfg s e) = sent s @ [m] \<and> requestId m = rpcRequestId s \<and>
             (\<forall>m' \<in> set (sent s). requestId m' < requestId m))"
  proof (intro allI impI)
    fix e
    assume "is_call e \<and> (returnType_of e = ''void'' \<or> returnType_of e = ''promise'')"
    then obtain m where "sent (client_step cfg s e) = sent s @ [m]" "requestId m = rpcRequestId s"
      using immediate_call_sends [of e cfg s] by blast
    moreover have "\<forall>m' \<in> set (sent s). requestId m' < rpcRequestId s"
      using inv by (simp add: ids_generated_def)
    ultimately show "\<exists>m. sent (client_step cfg s e) = sent s @ [m] \<and> requestId m = rpcRequestId s \<and>
             (\<forall>m' \<in> set (sent s). requestId m' < requestId m)" by simp
  qed
  have D: "\<forall>e. is_call e \<and> returnType_of e = ''observable'' \<longrightarrow>
        sent (client_step cfg s e) = sent s \<and>
        (\<exists>m. observables (client_step cfg s e) = observables s @ [m] \<and>
             requestId m = rpcRequestId s)"
    using observable_call_defers by blast
  have E: "\<forall>ob. ob < length (observables s) \<longrightarrow> sent (subscribe s ob) = sent s @ [observables s ! ob]"
    using subscribe_sends by blast
  from A B C D E show ?thesis by blast
qed

theorem request_ids_increase_witness:
  "cold_example = client_run example_config constructor
     [CallRemoteFunction ''f'' ''observable'' [], CallRemoteFunction ''g'' ''promise'' [],
      Subscribe 0] \<and>
   rpcRequestId cold_example < 2 ^ 53 \<and>
   is_call (CreateRemoteObject ''Session'' []) \<and>
   returnType_of (CreateRemoteObject ''Session'' []) = ''promise'' \<and>
   rpcRequestId (client_step example_config cold_example (CreateRemoteObject ''Session'' [])) = 4 \<and>
   (\<exists>m. sent (client_step example_config cold_example (CreateRemoteObject ''Session'' [])) =
          sent cold_example @ [m] \<and> requestId m = 3 \<and>
          (\<forall>m' \<in> set (sent cold_example). requestId m' < requestId m)) \<and>
   is_call (CallRemoteFunction ''h'' ''observable'' []) \<and>
   sent (client_step example_config cold_example (CallRemoteFunction ''h'' ''observable'' [])) =
     sent cold_example \<and>
   sent (subscribe cold_example 0) = sent cold_example @ [FunctionCall ''f'' 1 []]"
proof -
  have r: "cold_example = client_run example_config constructor
     [CallRemoteFunction ''f'' ''observable'' [], CallRemoteFunction ''g'' ''promise'' [],
      Subscribe 0]"
    by (simp add: cold_example_def)
  have c: "rpcRequestId cold_example = 3" "observables cold_example = [FunctionCall ''f'' 1 []]"
    by (simp_all add: client_defs)
  then have lt: "rpcRequestId cold_example < 2 ^ 53" by simp
  note w = request_ids_increase [OF r lt]
  let ?new = "CreateRemoteObject ''Session'' []"
  let ?obs = "CallRemoteFunction ''h'' ''observable'' []"
  have ic: "is_call ?new" "returnType_of ?new = ''promise''"
    "is_call ?obs" "returnType_of ?obs = ''observable''" "0 < length (observables cold_example)"
    using c by simp_all
  have "\<exists>m. sent (client_step example_config cold_example ?new) =
          sent cold_example @ [m] \<and> requestId m = rpcRequestId cold_example \<and>
          (\<forall>m' \<in> set (sent cold_example). requestId m' < requestId m)"
    using w ic(1,2) by blast
  moreover have "rpcRequestId (client_step example_config cold_example ?new) =
      rpcRequestId cold_example + 1"
    using w ic(1) by blast
  moreover have "sent (client_step example_config cold_example ?obs) = sent cold_example"
    using w ic(3,4) by blast
  moreover have "sent (subscribe cold_example 0) = sent cold_example @ [observables cold_example ! 0]"
    using w ic(5) by blast
  ultimately show ?thesis using r lt c by simp
qed

subsection \<open>Promise calls\<close>




subsection \<open>Frames without protocol or channel\<close>

text \<open>
  Claim C5 says that a frame without the protocol identifier or without the channel tag is
  ignored with a warning and that no handler runs. On the client, a reply that has the
  channel tag and no protocol is handled like any other: it resolves the promise of the
  call. On the server, a frame without protocol is not ignored with a warning: the handler
  throws an assertion error and logs nothing.
\<close>

theorem malformed_frame_counterexample:
  "response_protocol reply_example = JUndefined \<and>
   promises called_example = [Pending] \<and>
   promises (fst (handleSocketMessage example_config called_example reply_example)) =
     [Resolved (JNum 5)] \<and>
   example_parse ''{}'' = Some (JObj []) \<and>
   onSocketMessage example_parse example_config newServer ''c'' ''{}'' =
     (newServer, Some AssertionError)"
  by (simp add: client_defs example_parse_def onSocketMessage_def)

text \<open>
  Claim C5, amended. On the server, a parsed frame other than \<open>null\<close> whose \<open>protocol\<close>
  is not the RPC channel tag makes \<open>_onSocketMessage\<close> fail its assertion: it throws,
  \<open>handleMessage\<close> is not called and the state, the log included, is unchanged; a frame
  whose \<open>protocol\<close> is the (non-empty) tag is passed to \<open>handleMessage\<close>, whatever its
  \<open>channel\<close>. On the client, a frame whose \<open>channel\<close> is not the tag makes
  \<open>_handleSocketMessage\<close> fail its assertion: it throws, no listener runs and the state,
  the log included, is unchanged; a frame whose \<open>channel\<close> is the tag is emitted to the
  listeners of its identifier, whatever its \<open>protocol\<close>.
\<close>

theorem malformed_frame_fails_assertion:
  "(JSON_parse payload = Some msg \<and> msg \<noteq> JNull \<and> msg \<noteq> JUndefined \<and>
      get_prop msg ''protocol'' \<noteq> JStr (SERVICE_FRAMEWORK3_CHANNEL cfg) \<longrightarrow>
      onSocketMessage JSON_parse cfg s cid payload = (s, Some AssertionError)) \<and>
   (JSON_parse payload = Some msg \<and> SERVICE_FRAMEWORK3_CHANNEL cfg \<noteq> [] \<and>
      get_prop msg ''protocol'' = JStr (SERVICE_FRAMEWORK3_CHANNEL cfg) \<longrightarrow>
      onSocketMessage JSON_parse cfg s cid payload =
        (s\<lparr>handled := handled s @ [(cid, msg)]\<rparr>, None)) \<and>
   (channel m \<noteq> JStr (SERVICE_FRAMEWORK3_CHANNEL cfg) \<longrightarrow>
      handleSocketMessage cfg c m = (c, Some AssertionError)) \<and>
   (channel m = JStr (SERVICE_FRAMEWORK3_CHANNEL cfg) \<longrightarrow>
      handleSocketMessage cfg c m =
        emit c (response_id m) (hadError m) (error m) (result m))"
proof -
  have "get_prop msg ''protocol'' = JStr (SERVICE_FRAMEWORK3_CHANNEL cfg) \<Longrightarrow>
        msg \<noteq> JNull \<and> msg \<noteq> JUndefined"
    by (cases msg) simp_all
  then show ?thesis
    by (auto simp: onSocketMessage_def handleSocketMessage_def)
qed

theorem malformed_frame_fails_assertion_witness:
  "example_parse ''{}'' = Some (JObj []) \<and>
   get_prop (JObj []) ''protocol'' \<noteq> JStr (SERVICE_FRAMEWORK3_CHANNEL example_config) \<and>
   onSocketMessage example_parse example_config newServer ''c'' ''{}'' =
     (newServer, Some AssertionError) \<and>
   get_prop (JObj [(''protocol'', JStr ''service_framework3_rpc'')]) ''protocol'' =
     JStr (SERVICE_FRAMEWORK3_CHANNEL example_config) \<and>
   onSocketMessage (\<lambda>t. Some (JObj [(''protocol'', JStr ''service_framework3_rpc'')]))
       example_config newServer ''c'' ''frame'' =
     (newServer\<lparr>handled := [(''c'', JObj [(''protocol'', JStr ''service_framework3_rpc'')])]\<rparr>, None) \<and>
   channel (reply_example\<lparr>channel := JUndefined\<rparr>) \<noteq> JStr (SERVICE_FRAMEWORK3_CHANNEL example_config) \<and>
   handleSocketMessage example_config called_example (reply_example\<lparr>channel := JUndefined\<rparr>) =
     (called_example, Some AssertionError) \<and>
   channel reply_example = JStr (SERVICE_FRAMEWORK3_CHANNEL example_config) \<and>
   handleSocketMessage example_config called_example reply_example =
     emit called_example 1 (JBool False) JUndefined (JNum 5)"
proof -
  let ?ok = "JObj [(''protocol'', JStr ''service_framework3_rpc'')]"
  have p: "example_parse ''{}'' = Some (JObj [])" by (simp add: example_parse_def)
  have h: "handled newServer = []" by (simp add: newServer_def)
  have c: "SERVICE_FRAMEWORK3_CHANNEL example_config = ''service_framework3_rpc''"
    by (simp add: example_config_def)
  show ?thesis
    using malformed_frame_fails_assertion
            [of example_parse "''{}''" "JObj []" example_config newServer "''c''"
                "reply_example\<lparr>channel := JUndefined\<rparr>" called_example]
          malformed_frame_fails_assertion
            [of "\<lambda>t. Some ?ok" "''frame''" ?ok example_config newServer "''c''"
                reply_example called_example]
          p h c
    by (simp add: reply_example_def)
qed

subsection \<open>Unsubscribing\<close>

text \<open>
  Claim C6. Unsubscribing a subscription that has not been disposed sends exactly one
  \<open>DisposeObservable\<close> frame, which bears the \<open>requestId\<close> of the subscription, and
  removes the listeners registered for this \<open>requestId\<close>; a frame that arrives afterwards
  for this \<open>requestId\<close> changes nothing, and whatever happens afterwards, the subscriber
  is given nothing more. Unsubscribing a subscription that has been disposed (by an earlier
  unsubscription, or by the completion or failure of the stream, which sent the frame)
  sends nothing and removes nothing. The \<open>requestId\<close> of a subscription is that of the
  call that returned the observable.
\<close>

theorem unsubscribe_sends_dispose:
  assumes "h < length (subs s)"
  shows "(\<not> isDisposed (subs s ! h) \<longrightarrow>
            sent (unsubscribe s h) = sent s @ [DisposeObservable (sub_requestId (subs s ! h))] \<and>
            listeners (unsubscribe s h) (sub_requestId (subs s ! h)) = [] \<and>
            unsubscribe (unsubscribe s h) h = unsubscribe s h \<and>
            (\<forall>m. response_id m = sub_requestId (subs s ! h) \<longrightarrow>
                 fst (handleSocketMessage cfg (unsubscribe s h) m) = unsubscribe s h)) \<and>
         (isDisposed (subs s ! h) \<longrightarrow>
            sent (unsubscribe s h) = sent s \<and> emitter (unsubscribe s h) = emitter s) \<and>
         (\<forall>es. received (subs (client_run cfg (unsubscribe s h) es) ! h) = received (subs s ! h)) \<and>
         (\<forall>ob. ob < length (observables s) \<longrightarrow>
              sub_requestId (subs (subscribe s ob) ! length (subs s)) = requestId (observables s ! ob) \<and>
              \<not> isDisposed (subs (subscribe s ob) ! length (subs s)))"
proof -
  have A: "\<not> isDisposed (subs s ! h) \<longrightarrow>
            sent (unsubscribe s h) = sent s @ [DisposeObservable (sub_requestId (subs s ! h))] \<and>
            listeners (unsubscribe s h) (sub_requestId (subs s ! h)) = [] \<and>
            unsubscribe (unsubscribe s h) h = unsubscribe s h \<and>
            (\<forall>m. response_id m = sub_requestId (subs s ! h) \<longrightarrow>
                 fst (handleSocketMessage cfg (unsubscribe s h) m) = unsubscribe s h)"
  proof
    assume n: "\<not> isDisposed (subs s ! h)"
    note u = unsubscribe_active [OF assms n]
    have "unsubscribe (unsubscribe s h) h = unsubscribe s h"
      using u(3,4,6) assms by (intro unsubscribe_disposed) simp_all
    moreover have "\<forall>m. response_id m = sub_requestId (subs s ! h) \<longrightarrow>
              fst (handleSocketMessage cfg (unsubscribe s h) m) = unsubscribe s h"
      using u(2) late_frame_dropped by simp
    ultimately show "sent (unsubscribe s h) = sent s @ [DisposeObservable (sub_requestId (subs s ! h))] \<and>
            listeners (unsubscribe s h) (sub_requestId (subs s ! h)) = [] \<and>
            unsubscribe (unsubscribe s h) h = unsubscribe s h \<and>
            (\<forall>m. response_id m = sub_requestId (subs s ! h) \<longrightarrow>
                 fst (handleSocketMessage cfg (unsubscribe s h) m) = unsubscribe s h)"
      using u(1,2) by blast
  qed
  have B: "isDisposed (subs s ! h) \<longrightarrow>
            sent (unsubscribe s h) = sent s \<and> emitter (unsubscribe s h) = emitter s"
    using assms by (simp add: unsubscribe_def dispose_def stop_def)
  have st: "length (subs (unsubscribe s h)) = length (subs s)"
    "isStopped (subs (unsubscribe s h) ! h)"
    "received (subs (unsubscribe s h) ! h) = received (subs s ! h)"
    using assms
    by (simp_all add: unsubscribe_def dispose_def stop_def Let_def removeAllListeners_def
          socket_send_def)
  have C: "\<forall>es. received (subs (client_run cfg (unsubscribe s h) es) ! h) = received (subs s ! h)"
  proof
    fix es
    have "received (subs (client_run cfg (unsubscribe s h) es) ! h) =
          received (subs (unsubscribe s h) ! h)"
      using st(1,2) assms by (intro frozen_run) simp_all
    then show "received (subs (client_run cfg (unsubscribe s h) es) ! h) = received (subs s ! h)"
      using st(3) by simp
  qed
  have D: "\<forall>ob. ob < length (observables s) \<longrightarrow>
              sub_requestId (subs (subscribe s ob) ! length (subs s)) = requestId (observables s ! ob) \<and>
              \<not> isDisposed (subs (subscribe s ob) ! length (subs s))"
    by (simp add: subscribe_def Let_def socket_send_def emitter_on_def)
  from A B C D show ?thesis by blast
qed

theorem unsubscribe_sends_dispose_witness:
  "0 < length (subs subscribed_example) \<and> \<not> isDisposed (subs subscribed_example ! 0) \<and>
   sent subscribed_example = [FunctionCall ''tail'' 1 [JStr ''path'']] \<and>
   sent (unsubscribe subscribed_example 0) =
     [FunctionCall ''tail'' 1 [JStr ''path''], DisposeObservable 1] \<and>
   listeners subscribed_example 1 = [(False, ObserverListener 0)] \<and>
   listeners (unsubscribe subscribed_example 0) 1 = [] \<and>
   unsubscribe (unsubscribe subscribed_example 0) 0 = unsubscribe subscribed_example 0 \<and>
   fst (handleSocketMessage example_config (unsubscribe subscribed_example 0)
          (reply_example\<lparr>result := JObj [(''type'', JStr ''next''), (''data'', JStr ''d'')]\<rparr>)) =
     unsubscribe subscribed_example 0 \<and>
   received (subs (client_run example_config (unsubscribe subscribed_example 0)
      [SocketMessage (reply_example\<lparr>result := JObj [(''type'', JStr ''next''), (''data'', JStr ''d'')]\<rparr>),
       Subscribe 0]) ! 0) = [] \<and>
   sub_requestId (subs (subscribe subscribed_example 0) ! 1) = 1 \<and>
   0 < length (subs (unsubscribe subscribed_example 0)) \<and>
   isDisposed (subs (unsubscribe subscribed_example 0) ! 0) \<and>
   sent (unsubscribe (unsubscribe subscribed_example 0) 0) = sent (unsubscribe subscribed_example 0)"
proof -
  let ?next = "reply_example\<lparr>result := JObj [(''type'', JStr ''next''), (''data'', JStr ''d'')]\<rparr>"
  have a: "0 < length (subs subscribed_example)" "\<not> isDisposed (subs subscribed_example ! 0)"
    "sub_requestId (subs subscribed_example ! 0) = 1" "received (subs subscribed_example ! 0) = []"
    "sent subscribed_example = [FunctionCall ''tail'' 1 [JStr ''path'']]"
    "listeners subscribed_example 1 = [(False, ObserverListener 0)]"
    "length (subs subscribed_example) = 1"
    "observables subscribed_example = [FunctionCall ''tail'' 1 [JStr ''path'']]"
    by (simp_all add: client_defs)
  have b: "0 < length (subs (unsubscribe subscribed_example 0))"
    "isDisposed (subs (unsubscribe subscribed_example 0) ! 0)"
    by (simp_all add: client_defs)
  have i: "response_id ?next = 1" by (simp add: reply_example_def)
  note w = unsubscribe_sends_dispose [OF a(1), of example_config]
  note v = unsubscribe_sends_dispose [OF b(1), of example_config]
  have "fst (handleSocketMessage example_config (unsubscribe subscribed_example 0) ?next) =
     unsubscribe subscribed_example 0"
    using w a(2,3) i by simp
  moreover have "received (subs (client_run example_config (unsubscribe subscribed_example 0)
      [SocketMessage ?next, Subscribe 0]) ! 0) = received (subs subscribed_example ! 0)"
    using w by blast
  moreover have "sub_requestId (subs (subscribe subscribed_example 0) ! length (subs subscribed_example)) =
      requestId (observables subscribed_example ! 0)"
    using w a(8) by simp
  moreover have "sent (unsubscribe (unsubscribe subscribed_example 0) 0) =
      sent (unsubscribe subscribed_example 0)"
    using v b(2) by blast
  ultimately show ?thesis using w a b by simp
qed

subsection \<open>Timers\<close>




section \<open>Properties of the server's client sessions\<close>

subsection \<open>Sending\<close>

lemma sendSocketMessages_Nil [simp]: "sendSocketMessages s cid [] = s"
  by (simp add: sendSocketMessages_def)

lemma sendSocketMessages_Cons [simp]:
  "sendSocketMessages s cid (d # ds) = sendSocketMessages (sendSocketMessage s cid d) cid ds"
  by (simp add: sendSocketMessages_def)

lemma flush_sendSocketMessages: "flush s cid ms = sendSocketMessages s cid (map data ms)"
  by (simp add: flush_def sendSocketMessages_def foldl_map)

lemma send_client:
  assumes "clients s cid = Some c"
  shows "clients (sendSocketMessage s cid d) cid =
           Some (c\<lparr>messageQueue := messageQueue c @ [\<lparr>uid = fresh s, data = d\<rparr>]\<rparr>)"
  using assms by (simp add: sendSocketMessage_def enqueue_def transmit_def Let_def split: option.splits)

lemma send_other_client:
  "cid' \<noteq> cid \<Longrightarrow> clients (sendSocketMessage s cid d) cid' = clients s cid'"
  by (simp add: sendSocketMessage_def enqueue_def transmit_def Let_def split: option.splits)

lemma send_outbox_attached:
  assumes "clients s cid = Some c" "socket c = Some k"
  shows "outbox (sendSocketMessage s cid d) = (outbox s)(k := outbox s k @ [d])"
  using assms by (simp add: sendSocketMessage_def enqueue_def transmit_def Let_def)

lemma send_outbox_detached:
  assumes "clients s cid = Some c" "socket c = None"
  shows "outbox (sendSocketMessage s cid d) = outbox s"
  using assms by (simp add: sendSocketMessage_def enqueue_def transmit_def Let_def)

lemma send_unchanged:
  "closedSockets (sendSocketMessage s cid d) = closedSockets s"
  "connection (sendSocketMessage s cid d) = connection s"
  "handled (sendSocketMessage s cid d) = handled s"
  "server_logged (sendSocketMessage s cid d) = server_logged s"
  by (simp_all add: sendSocketMessage_def enqueue_def transmit_def Let_def split: option.splits)

lemma sendAll_client:
  "clients s cid = Some c \<Longrightarrow>
   \<exists>c'. clients (sendSocketMessages s cid ds) cid = Some c' \<and> clientId c' = clientId c \<and>
        subscriptions c' = subscriptions c \<and> socket c' = socket c \<and>
        map data (messageQueue c') = map data (messageQueue c) @ ds"
proof (induction ds arbitrary: s c)
  case Nil
  then show ?case by simp
next
  case (Cons d ds)
  let ?c1 = "c\<lparr>messageQueue := messageQueue c @ [\<lparr>uid = fresh s, data = d\<rparr>]\<rparr>"
  have "clients (sendSocketMessage s cid d) cid = Some ?c1"
    using Cons.prems by (rule send_client)
  from Cons.IH [OF this] show ?case by simp
qed

lemma sendAll_other_client:
  "cid' \<noteq> cid \<Longrightarrow> clients (sendSocketMessages s cid ds) cid' = clients s cid'"
  by (induction ds arbitrary: s) (simp_all add: send_other_client)

lemma sendAll_outbox_attached:
  "clients s cid = Some c \<Longrightarrow> socket c = Some k \<Longrightarrow>
   outbox (sendSocketMessages s cid ds) = (outbox s)(k := outbox s k @ ds)"
proof (induction ds arbitrary: s c)
  case Nil
  then show ?case by simp
next
  case (Cons d ds)
  let ?c1 = "c\<lparr>messageQueue := messageQueue c @ [\<lparr>uid = fresh s, data = d\<rparr>]\<rparr>"
  have c1: "clients (sendSocketMessage s cid d) cid = Some ?c1"
    using Cons.prems(1) by (rule send_client)
  have "socket ?c1 = Some k" using Cons.prems(2) by simp
  from Cons.IH [OF c1 this] show ?case
    by (auto simp: send_outbox_attached [OF Cons.prems] fun_eq_iff)
qed

lemma sendAll_outbox_detached:
  "clients s cid = Some c \<Longrightarrow> socket c = None \<Longrightarrow>
   outbox (sendSocketMessages s cid ds) = outbox s"
proof (induction ds arbitrary: s c)
  case Nil
  then show ?case by simp
next
  case (Cons d ds)
  let ?c1 = "c\<lparr>messageQueue := messageQueue c @ [\<lparr>uid = fresh s, data = d\<rparr>]\<rparr>"
  have c1: "clients (sendSocketMessage s cid d) cid = Some ?c1"
    using Cons.prems(1) by (rule send_client)
  have "socket ?c1 = None" using Cons.prems(2) by simp
  from Cons.IH [OF c1 this] show ?case
    by (simp add: send_outbox_detached [OF Cons.prems])
qed

lemma sendAll_unchanged:
  "closedSockets (sendSocketMessages s cid ds) = closedSockets s"
  "connection (sendSocketMessages s cid ds) = connection s"
  "handled (sendSocketMessages s cid ds) = handled s"
  "server_logged (sendSocketMessages s cid ds) = server_logged s"
  by (induction ds arbitrary: s) (simp_all add: send_unchanged)

lemma send_fresh: "fresh s \<le> fresh (sendSocketMessage s cid d)"
  by (simp add: sendSocketMessage_def enqueue_def transmit_def Let_def split: option.splits)

lemma send_callbacks:
  "x \<in> set (callbacks (sendSocketMessage s cid d)) \<Longrightarrow>
   x \<in> set (callbacks s) \<or> uid (snd (snd x)) = fresh s"
  by (auto simp: sendSocketMessage_def enqueue_def transmit_def Let_def split: option.splits)

lemma send_queue:
  "clients (sendSocketMessage s cid d) cid' = Some c' \<Longrightarrow>
   \<exists>c. clients s cid' = Some c \<and>
       (messageQueue c' = messageQueue c \<or>
        messageQueue c' = messageQueue c @ [\<lparr>uid = fresh s, data = d\<rparr>])"
  by (auto simp: sendSocketMessage_def enqueue_def transmit_def Let_def split: option.splits if_splits)

lemma send_fresh_client:
  "clients s cid = Some c \<Longrightarrow> fresh (sendSocketMessage s cid d) = Suc (fresh s)"
  by (simp add: sendSocketMessage_def enqueue_def transmit_def Let_def split: option.splits)

lemma send_callbacks_eq:
  "callbacks (sendSocketMessage s cid d) = callbacks s \<or>
   (\<exists>k. callbacks (sendSocketMessage s cid d) = callbacks s @ [(k, cid, \<lparr>uid = fresh s, data = d\<rparr>)])"
  by (auto simp: sendSocketMessage_def enqueue_def transmit_def Let_def split: option.splits)

lemma send_identities_ok:
  assumes "identities_ok s"
  shows "identities_ok (sendSocketMessage s cid d)"
proof (cases "clients s cid")
  case None
  then show ?thesis using assms by (simp add: sendSocketMessage_def)
next
  case (Some c)
  have f: "fresh (sendSocketMessage s cid d) = Suc (fresh s)"
    using Some by (rule send_fresh_client)
  have old: "\<forall>x \<in> set (callbacks s). uid (snd (snd x)) < fresh s"
    using assms by (simp add: identities_ok_def)
  have cb: "\<forall>x \<in> set (callbacks (sendSocketMessage s cid d)). uid (snd (snd x)) < Suc (fresh s)"
    using old send_callbacks [of _ s cid d] by (fastforce intro: less_SucI)
  have "distinct (map (\<lambda>x. uid (snd (snd x))) (callbacks s))"
    using assms by (simp add: identities_ok_def)
  moreover have "fresh s \<notin> (\<lambda>x. uid (snd (snd x))) ` set (callbacks s)"
    using old by fastforce
  ultimately have di: "distinct (map (\<lambda>x. uid (snd (snd x))) (callbacks (sendSocketMessage s cid d)))"
    using send_callbacks_eq [of s cid d] by auto
  have q: "\<forall>c' \<in> ran (clients (sendSocketMessage s cid d)).
             \<forall>m \<in> set (messageQueue c'). uid m < Suc (fresh s)"
  proof (intro ballI)
    fix c' m
    assume "c' \<in> ran (clients (sendSocketMessage s cid d))" and m: "m \<in> set (messageQueue c')"
    then obtain cid' where "clients (sendSocketMessage s cid d) cid' = Some c'"
      by (auto simp: ran_def)
    from send_queue [OF this] obtain c0 where c0: "clients s cid' = Some c0"
      and alt: "messageQueue c' = messageQueue c0 \<or>
                messageQueue c' = messageQueue c0 @ [\<lparr>uid = fresh s, data = d\<rparr>]"
      by blast
    have "\<forall>m \<in> set (messageQueue c0). uid m < fresh s"
      using assms c0 by (auto simp: identities_ok_def ran_def)
    with alt m show "uid m < Suc (fresh s)" by (auto intro: less_SucI)
  qed
  show ?thesis unfolding identities_ok_def f using cb di q by blast
qed

lemma sendAll_identities_ok:
  "identities_ok s \<Longrightarrow> identities_ok (sendSocketMessages s cid ds)"
  by (induction ds arbitrary: s) (simp_all add: send_identities_ok)

lemma send_held:
  assumes "held s cid m"
  shows "held (sendSocketMessage s cid' d) cid m"
proof (cases "clients s cid'")
  case None
  then show ?thesis using assms by (simp add: sendSocketMessage_def)
next
  case (Some c')
  have a: "case clients (sendSocketMessage s cid' d) cid of None \<Rightarrow> False
           | Some c \<Rightarrow> m \<in> set (messageQueue c)"
  proof (cases "cid = cid'")
    case True
    then show ?thesis using assms Some by (simp add: send_client held_def)
  next
    case False
    then show ?thesis using assms by (simp add: send_other_client held_def)
  qed
  have b: "uid m < fresh (sendSocketMessage s cid' d)"
    using assms send_fresh [of s cid' d] by (simp add: held_def)
  have c: "\<forall>x \<in> set (callbacks (sendSocketMessage s cid' d)). uid (snd (snd x)) \<noteq> uid m"
    using assms send_callbacks [of _ s cid' d] by (fastforce simp: held_def)
  from a b c show ?thesis by (simp add: held_def)
qed

lemma sendAll_held:
  "held s cid m \<Longrightarrow> held (sendSocketMessages s cid' ds) cid m"
  by (induction ds arbitrary: s) (simp_all add: send_held)

lemma indexOf_Some:
  "indexOf q m = Some i \<Longrightarrow> i < length q \<and> uid (q ! i) = uid m"
  by (induction q arbitrary: i) (auto split: if_splits)

lemma set_splice1: "set (splice1 xs i) \<subseteq> set xs"
  unfolding splice1_def using set_take_subset [of i xs] set_drop_subset [of "Suc i" xs] by auto

lemma splice1_keeps:
  assumes "x \<in> set xs" "i < length xs" "xs ! i \<noteq> x"
  shows "x \<in> set (splice1 xs i)"
proof -
  from assms(1) obtain j where j: "j < length xs" "xs ! j = x" by (auto simp: in_set_conv_nth)
  with assms(3) have "j \<noteq> i" by auto
  then consider "j < i" | "Suc i \<le> j" by linarith
  then show ?thesis
  proof cases
    case 1
    then have "x \<in> set (take i xs)" using j by (auto simp: in_set_conv_nth)
    then show ?thesis by (simp add: splice1_def)
  next
    case 2
    then have "xs ! (Suc i + (j - Suc i)) = x" "j - Suc i < length xs - Suc i" using j by auto
    then have "x \<in> set (drop (Suc i) xs)" 
      by (metis in_set_conv_nth length_drop nth_drop Suc_leI assms(2))
    then show ?thesis by (simp add: splice1_def)
  qed
qed

lemma callbackFires_held:
  assumes "held s cid m"
  shows "held (callbackFires s i err) cid m"
proof (cases "i < length (callbacks s)")
  case False
  then show ?thesis using assms by (simp add: callbackFires_def)
next
  case True
  obtain k cid0 m0 where x: "callbacks s ! i = (k, cid0, m0)" by (cases "callbacks s ! i") auto
  have "(k, cid0, m0) \<in> set (callbacks s)" using True x by (metis nth_mem)
  then have neq: "uid m0 \<noteq> uid m" using assms by (auto simp: held_def)
  let ?s1 = "s\<lparr>callbacks := splice1 (callbacks s) i\<rparr>"
  have h1: "held ?s1 cid m"
    using assms set_splice1 [of "callbacks s" i] by (auto simp: held_def)
  have eq: "callbackFires s i err = sendCallback ?s1 cid0 m0 err"
    using True x by (simp add: callbackFires_def)
  show ?thesis
  proof (cases err)
    case True
    then show ?thesis using h1 unfolding eq by (simp add: sendCallback_def server_log_def held_def)
  next
    case False
    show ?thesis
    proof (cases "clients s cid0")
      case None
      then show ?thesis using h1 False unfolding eq by (simp add: sendCallback_def)
    next
      case (Some c0)
      show ?thesis
      proof (cases "indexOf (messageQueue c0) m0")
        case None
        then show ?thesis using h1 False Some unfolding eq by (simp add: sendCallback_def)
      next
        case (Some j)
        from indexOf_Some [OF this] have j: "j < length (messageQueue c0)"
          "uid (messageQueue c0 ! j) = uid m0" by auto
        have s2: "callbackFires s i err =
                  ?s1\<lparr>clients := (clients s)(cid0 \<mapsto> c0\<lparr>messageQueue := splice1 (messageQueue c0) j\<rparr>)\<rparr>"
          using False \<open>clients s cid0 = Some c0\<close> Some unfolding eq by (simp add: sendCallback_def)
        show ?thesis
        proof (cases "cid = cid0")
          case True
          have "m \<in> set (messageQueue c0)"
            using assms True \<open>clients s cid0 = Some c0\<close> by (simp add: held_def)
          moreover have "messageQueue c0 ! j \<noteq> m" using j neq by auto
          ultimately have "m \<in> set (splice1 (messageQueue c0) j)"
            using j(1) by (simp add: splice1_keeps)
          then show ?thesis using h1 True by (simp add: s2 held_def)
        next
          case False
          then show ?thesis using h1 by (simp add: s2 held_def)
        qed
      qed
    qed
  qed
qed

lemma onFirstMessage_other_held:
  assumes "held s cid m" "cid' \<noteq> cid"
  shows "held (onFirstMessage s k cid') cid m"
proof -
  let ?c = "case clients s cid' of Some c \<Rightarrow> c | None \<Rightarrow> newClient cid'"
  let ?s1 = "closePrevious (s\<lparr>connection := (connection s)(k \<mapsto> cid')\<rparr>) ?c"
  let ?s2 = "server_log ?s1 Info ''Client #%s connecting with a new socket!''"
  let ?s3 = "?s2\<lparr>clients := (clients ?s2)(cid' \<mapsto> ?c\<lparr>socket := Some k, messageQueue := []\<rparr>)\<rparr>"
  have eq: "onFirstMessage s k cid' = sendSocketMessages ?s3 cid' (map data (messageQueue ?c))"
    by (simp add: onFirstMessage_def Let_def flush_sendSocketMessages)
  have "held ?s3 cid m"
    using assms by (simp add: held_def closePrevious_def server_log_def split: option.splits)
  then show ?thesis unfolding eq by (rule sendAll_held)
qed

lemma onClose_held: "held s cid m \<Longrightarrow> held (onClose s k) cid m"
  by (auto simp: held_def onClose_def server_log_def Let_def split: option.splits)

lemma step_held:
  assumes "held s cid m" "\<not> attaches s cid e"
  shows "held (server_step P cfg s e) cid m"
proof (cases e)
  case (Connection k)
  then show ?thesis using assms by (simp add: onConnection_def server_log_def held_def)
next
  case (Message k payload)
  show ?thesis
  proof (cases "connection s k")
    case None
    then have "payload \<noteq> cid" using assms(2) Message by (simp add: attaches_def)
    then show ?thesis using assms(1) Message None by (simp add: onFirstMessage_other_held)
  next
    case (Some cid0)
    then show ?thesis using assms(1) Message
      by (simp add: onSocketMessage_def held_def split: option.splits)
  qed
next
  case (Close k)
  then show ?thesis using assms by (simp add: onClose_held)
next
  case (SocketError k)
  then show ?thesis using assms by (simp add: onError_def server_log_def held_def)
next
  case (SendSocketMessage cid' d)
  then show ?thesis using assms by (simp add: send_held)
next
  case (CallbackFires i err)
  then show ?thesis using assms by (simp add: callbackFires_held)
qed


lemma distinct_take_drop:
  assumes "distinct ys"
  shows "distinct (take i ys @ drop (Suc i) ys)"
proof -
  have "distinct (take i ys @ drop i ys)" using assms by simp
  then have "set (take i ys) \<inter> set (drop i ys) = {}" by (simp only: distinct_append)
  moreover have "set (drop (Suc i) ys) \<subseteq> set (drop i ys)"
    by (rule set_drop_subset_set_drop) simp
  ultimately show ?thesis using assms by (auto simp: distinct_append)
qed

lemma distinct_splice1: "distinct (map f xs) \<Longrightarrow> distinct (map f (splice1 xs i))"
  using distinct_take_drop [of "map f xs" i] by (simp add: splice1_def take_map drop_map)

lemma ran_upd: "c' \<in> ran (m(a \<mapsto> b)) \<Longrightarrow> c' = b \<or> c' \<in> ran m"
  by (auto simp: ran_def split: if_splits)

lemma callbackFires_identities_ok:
  assumes "identities_ok s"
  shows "identities_ok (callbackFires s i err)"
proof (cases "i < length (callbacks s)")
  case False
  then show ?thesis using assms by (simp add: callbackFires_def)
next
  case True
  obtain k cid0 m0 where x: "callbacks s ! i = (k, cid0, m0)" by (cases "callbacks s ! i") auto
  let ?s1 = "s\<lparr>callbacks := splice1 (callbacks s) i\<rparr>"
  have h1: "identities_ok ?s1"
    using assms set_splice1 [of "callbacks s" i]
    by (auto simp: identities_ok_def distinct_splice1)
  have eq: "callbackFires s i err = sendCallback ?s1 cid0 m0 err"
    using True x by (simp add: callbackFires_def)
  have "identities_ok (sendCallback ?s1 cid0 m0 err)"
  proof (cases "err \<or> clients s cid0 = None \<or> indexOf (messageQueue (the (clients s cid0))) m0 = None")
    case True
    then show ?thesis using h1
      by (auto simp: sendCallback_def server_log_def identities_ok_def split: option.splits)
  next
    case False
    then obtain c0 j where c0: "clients s cid0 = Some c0" "indexOf (messageQueue c0) m0 = Some j" "\<not> err"
      by auto
    have s2: "sendCallback ?s1 cid0 m0 err =
              ?s1\<lparr>clients := (clients s)(cid0 \<mapsto> c0\<lparr>messageQueue := splice1 (messageQueue c0) j\<rparr>)\<rparr>"
      using c0 by (simp add: sendCallback_def)
    have "c0 \<in> ran (clients s)" using c0(1) by (auto simp: ran_def)
    then have "\<forall>m \<in> set (messageQueue c0). uid m < fresh s"
      using assms by (simp add: identities_ok_def)
    then have "\<forall>m \<in> set (splice1 (messageQueue c0) j). uid m < fresh s"
      using set_splice1 [of "messageQueue c0" j] by auto
    then show ?thesis using h1 unfolding s2 identities_ok_def
      by (auto dest!: ran_upd)
  qed
  then show ?thesis by (simp add: eq)
qed

lemma onFirstMessage_identities_ok:
  assumes "identities_ok s"
  shows "identities_ok (onFirstMessage s k cid)"
proof -
  let ?c = "case clients s cid of Some c \<Rightarrow> c | None \<Rightarrow> newClient cid"
  let ?s1 = "closePrevious (s\<lparr>connection := (connection s)(k \<mapsto> cid)\<rparr>) ?c"
  let ?s2 = "server_log ?s1 Info ''Client #%s connecting with a new socket!''"
  let ?s3 = "?s2\<lparr>clients := (clients ?s2)(cid \<mapsto> ?c\<lparr>socket := Some k, messageQueue := []\<rparr>)\<rparr>"
  have eq: "onFirstMessage s k cid = sendSocketMessages ?s3 cid (map data (messageQueue ?c))"
    by (simp add: onFirstMessage_def Let_def flush_sendSocketMessages)
  have "identities_ok ?s3"
    using assms unfolding identities_ok_def
    by (auto simp: closePrevious_def server_log_def split: option.splits dest!: ran_upd)
  then show ?thesis unfolding eq by (rule sendAll_identities_ok)
qed

lemma onClose_identities_ok: "identities_ok s \<Longrightarrow> identities_ok (onClose s k)"
  unfolding identities_ok_def onClose_def
  by (auto simp: server_log_def Let_def split: option.splits dest!: ran_upd)
    (auto simp: ran_def)

lemma step_identities_ok:
  assumes "identities_ok s"
  shows "identities_ok (server_step P cfg s e)"
proof (cases e)
  case (Connection k)
  then show ?thesis using assms by (simp add: onConnection_def server_log_def identities_ok_def)
next
  case (Message k payload)
  show ?thesis
  proof (cases "connection s k")
    case None
    then show ?thesis using assms Message by (simp add: onFirstMessage_identities_ok)
  next
    case (Some cid0)
    then show ?thesis using assms Message
      by (simp add: onSocketMessage_def identities_ok_def split: option.splits)
  qed
next
  case (Close k)
  then show ?thesis using assms by (simp add: onClose_identities_ok)
next
  case (SocketError k)
  then show ?thesis using assms by (simp add: onError_def server_log_def identities_ok_def)
next
  case (SendSocketMessage cid' d)
  then show ?thesis using assms by (simp add: send_identities_ok)
next
  case (CallbackFires i err)
  then show ?thesis using assms by (simp add: callbackFires_identities_ok)
qed

lemma run_identities_ok: "identities_ok s \<Longrightarrow> identities_ok (server_run P cfg s es)"
  unfolding server_run_def by (induction es arbitrary: s) (simp_all add: step_identities_ok)

lemma newServer_identities_ok: "identities_ok newServer"
  by (simp add: identities_ok_def newServer_def)


lemma onFirstMessage_other_client:
  "cid' \<noteq> cid \<Longrightarrow> clients (onFirstMessage s k cid') cid = clients s cid"
  by (simp add: onFirstMessage_def Let_def flush_sendSocketMessages sendAll_other_client
        closePrevious_def server_log_def split: option.splits)

lemma onFirstMessage_outbox:
  assumes "clients s cid = Some c"
  shows "outbox (onFirstMessage s k cid) k = outbox s k @ map data (messageQueue c)"
proof -
  let ?s1 = "closePrevious (s\<lparr>connection := (connection s)(k \<mapsto> cid)\<rparr>) c"
  let ?s2 = "server_log ?s1 Info ''Client #%s connecting with a new socket!''"
  let ?c3 = "c\<lparr>socket := Some k, messageQueue := []\<rparr>"
  let ?s3 = "?s2\<lparr>clients := (clients ?s2)(cid \<mapsto> ?c3)\<rparr>"
  have eq: "onFirstMessage s k cid = sendSocketMessages ?s3 cid (map data (messageQueue c))"
    using assms by (simp add: onFirstMessage_def Let_def flush_sendSocketMessages)
  have c3: "clients ?s3 cid = Some ?c3" by simp
  have k3: "socket ?c3 = Some k" by simp
  have "outbox ?s3 k = outbox s k"
    by (simp add: closePrevious_def server_log_def split: option.splits)
  then show ?thesis
    by (simp add: eq sendAll_outbox_attached [OF c3 k3])
qed

lemma onFirstMessage_client:
  assumes "clients s cid = Some c"
  shows "\<exists>c'. clients (onFirstMessage s k cid) cid = Some c' \<and>
               clientId c' = clientId c \<and> subscriptions c' = subscriptions c \<and>
               map data (messageQueue c') = map data (messageQueue c) \<and>
               socket c' = Some k"
proof -
  let ?s1 = "closePrevious (s\<lparr>connection := (connection s)(k \<mapsto> cid)\<rparr>) c"
  let ?s2 = "server_log ?s1 Info ''Client #%s connecting with a new socket!''"
  let ?c3 = "c\<lparr>socket := Some k, messageQueue := []\<rparr>"
  let ?s3 = "?s2\<lparr>clients := (clients ?s2)(cid \<mapsto> ?c3)\<rparr>"
  have eq: "onFirstMessage s k cid = sendSocketMessages ?s3 cid (map data (messageQueue c))"
    using assms by (simp add: onFirstMessage_def Let_def flush_sendSocketMessages)
  have c3: "clients ?s3 cid = Some ?c3" by simp
  obtain c' where "clients (sendSocketMessages ?s3 cid (map data (messageQueue c))) cid = Some c'"
    "clientId c' = clientId ?c3" "subscriptions c' = subscriptions ?c3" "socket c' = socket ?c3"
    "map data (messageQueue c') = map data (messageQueue ?c3) @ map data (messageQueue c)"
    using sendAll_client [OF c3, of "map data (messageQueue c)"] by blast
  then show ?thesis unfolding eq by simp
qed

lemma onFirstMessage_closes:
  assumes "clients s cid = Some c"
  shows "closedSockets (onFirstMessage s k cid) =
           closedSockets s @ (case socket c of None \<Rightarrow> [] | Some old \<Rightarrow> [old])"
  using assms
  by (simp add: onFirstMessage_def Let_def flush_sendSocketMessages sendAll_unchanged
        closePrevious_def server_log_def split: option.splits)

lemma held_delivered:
  assumes "held s cid m"
  shows "data m \<in> set (drop (length (outbox s k)) (outbox (onFirstMessage s k cid) k))"
proof -
  from assms obtain c where c: "clients s cid = Some c" "m \<in> set (messageQueue c)"
    by (auto simp: held_def split: option.splits)
  show ?thesis using c(2) by (simp add: onFirstMessage_outbox [OF c(1)])
qed

lemma send_detached_held:
  assumes "identities_ok s" "clients s cid = Some c" "socket c = None"
  shows "held (sendSocketMessage s cid d) cid \<lparr>uid = fresh s, data = d\<rparr>"
proof -
  have "sendSocketMessage s cid d = enqueue s cid c d"
    using assms(2,3) by (simp add: sendSocketMessage_def Let_def)
  moreover have "\<forall>x \<in> set (callbacks s). uid (snd (snd x)) \<noteq> fresh s"
    using assms(1) by (fastforce simp: identities_ok_def)
  ultimately show ?thesis by (simp add: held_def enqueue_def)
qed

lemma failed_send_held:
  assumes "identities_ok s" "i < length (callbacks s)" "callbacks s ! i = (k, cid, m)"
    "clients s cid = Some c" "m \<in> set (messageQueue c)"
  shows "held (callbackFires s i True) cid m"
proof -
  have eq: "callbackFires s i True =
        server_log (s\<lparr>callbacks := splice1 (callbacks s) i\<rparr>) Warn ''Failed sending socket message to client:''"
    using assms(2,3) by (simp add: callbackFires_def sendCallback_def)
  have d: "distinct (map (\<lambda>x. uid (snd (snd x))) (callbacks s))"
    using assms(1) by (simp add: identities_ok_def)
  have "callbacks s = take i (callbacks s) @ (k, cid, m) # drop (Suc i) (callbacks s)"
    using assms(2,3) by (metis id_take_nth_drop)
  then have "map (\<lambda>x. uid (snd (snd x))) (callbacks s) =
     map (\<lambda>x. uid (snd (snd x))) (take i (callbacks s)) @ uid m #
     map (\<lambda>x. uid (snd (snd x))) (drop (Suc i) (callbacks s))"
    by (metis (no_types, lifting) list.simps(9) map_append snd_conv)
  with d have "uid m \<notin> set (map (\<lambda>x. uid (snd (snd x))) (take i (callbacks s))) \<and>
     uid m \<notin> set (map (\<lambda>x. uid (snd (snd x))) (drop (Suc i) (callbacks s)))"
    by (metis distinct_append distinct.simps(2) disjoint_iff list.set_intros(1))
  then have no: "\<forall>x \<in> set (splice1 (callbacks s) i). uid (snd (snd x)) \<noteq> uid m"
    by (force simp: splice1_def)
  have "(k, cid, m) \<in> set (callbacks s)" using assms(2,3) by (metis nth_mem)
  then have "uid m < fresh s" using assms(1) by (fastforce simp: identities_ok_def)
  then show ?thesis using no assms(4,5) by (simp add: eq held_def server_log_def)
qed

lemma step_queue_data:
  assumes "clients s cid = Some c" "\<forall>i. e \<noteq> CallbackFires i False"
  shows "\<exists>c' extra. clients (server_step P cfg s e) cid = Some c' \<and>
           map data (messageQueue c') = map data (messageQueue c) @ extra"
proof (cases e)
  case (Connection k)
  then show ?thesis using assms by (simp add: onConnection_def server_log_def)
next
  case (Message k payload)
  show ?thesis
  proof (cases "connection s k")
    case None
    show ?thesis
    proof (cases "payload = cid")
      case True
      then show ?thesis using onFirstMessage_client [OF assms(1), of k] Message None by auto
    next
      case False
      then show ?thesis using assms(1) Message None by (simp add: onFirstMessage_other_client)
    qed
  next
    case (Some cid0)
    then show ?thesis using assms(1) Message
      by (simp add: onSocketMessage_def split: option.splits)
  qed
next
  case (Close k)
  then show ?thesis using assms(1)
    by (auto simp: onClose_def server_log_def Let_def split: option.splits)
next
  case (SocketError k)
  then show ?thesis using assms by (simp add: onError_def server_log_def)
next
  case (SendSocketMessage cid' d)
  show ?thesis
  proof (cases "cid' = cid")
    case True
    then show ?thesis using assms(1) SendSocketMessage by (simp add: send_client)
  next
    case False
    then show ?thesis using assms(1) SendSocketMessage by (simp add: send_other_client)
  qed
next
  case (CallbackFires i err)
  then have "err" using assms(2) by auto
  then show ?thesis using assms(1) CallbackFires
    by (cases "callbacks s ! i") (simp add: callbackFires_def sendCallback_def server_log_def)
qed


lemmas server_defs = server_run_def newServer_def onConnection_def onFirstMessage_def onClose_def
  onError_def sendSocketMessage_def enqueue_def transmit_def callbackFires_def sendCallback_def
  flush_def closePrevious_def server_log_def newClient_def splice1_def Let_def onSocketMessage_def
  example_config_def detached_example_def attached_example_def superseded_example_def

lemma detached_example_ok: "identities_ok detached_example"
  unfolding detached_example_def by (rule run_identities_ok [OF newServer_identities_ok])

lemma attached_example_ok: "identities_ok attached_example"
  unfolding attached_example_def by (rule run_identities_ok [OF detached_example_ok])

lemma detached_example_client:
  "clients detached_example ''c'' =
     Some \<lparr>clientId = ''c'', subscriptions = [], socket = None,
           messageQueue = [\<lparr>uid = 0, data = JStr ''a''\<rparr>]\<rparr>"
  by (simp add: server_defs)

lemma attached_example_client:
  "clients attached_example ''c'' =
     Some \<lparr>clientId = ''c'', subscriptions = [], socket = Some 2,
           messageQueue = [\<lparr>uid = 1, data = JStr ''a''\<rparr>, \<lparr>uid = 2, data = JStr ''b''\<rparr>]\<rparr>"
  by (simp add: server_defs)

lemma superseded_example_client:
  "clients superseded_example ''c'' =
     Some \<lparr>clientId = ''c'', subscriptions = [], socket = Some 2, messageQueue = []\<rparr>"
  by (simp add: server_defs)

subsection \<open>Reconnection\<close>

text \<open>
  Claim C3. When the first frame of a new socket \<open>k\<close> carries the identifier of an existing
  client session \<open>c\<close>: the session's previous socket, if any, is closed (and nothing else
  is); the session stays under its identifier with the same id and subscriptions and a
  queue holding the same frames in the same order; socket \<open>k\<close> is attached; and the frames
  of the queue, among them every frame queued while the session had no socket, are handed
  to socket \<open>k\<close> in their insertion order.
\<close>

theorem reconnect_existing_session:
  assumes "clients s cid = Some c"
  shows "closedSockets (onFirstMessage s k cid) =
           closedSockets s @ (case socket c of None \<Rightarrow> [] | Some old \<Rightarrow> [old]) \<and>
         (\<exists>c'. clients (onFirstMessage s k cid) cid = Some c' \<and>
               clientId c' = clientId c \<and> subscriptions c' = subscriptions c \<and>
               map data (messageQueue c') = map data (messageQueue c) \<and>
               socket c' = Some k) \<and>
         outbox (onFirstMessage s k cid) k = outbox s k @ map data (messageQueue c)"
  using onFirstMessage_closes [OF assms] onFirstMessage_client [OF assms]
    onFirstMessage_outbox [OF assms] by blast

theorem reconnect_existing_session_witness:
  "clients attached_example ''c'' =
     Some \<lparr>clientId = ''c'', subscriptions = [], socket = Some 2,
           messageQueue = [\<lparr>uid = 1, data = JStr ''a''\<rparr>, \<lparr>uid = 2, data = JStr ''b''\<rparr>]\<rparr> \<and>
   closedSockets (onFirstMessage attached_example 3 ''c'') = [2] \<and>
   (\<exists>c'. clients (onFirstMessage attached_example 3 ''c'') ''c'' = Some c' \<and>
         clientId c' = ''c'' \<and> subscriptions c' = [] \<and>
         map data (messageQueue c') = [JStr ''a'', JStr ''b''] \<and> socket c' = Some 3) \<and>
   outbox (onFirstMessage attached_example 3 ''c'') 3 = [JStr ''a'', JStr ''b'']"
proof -
  have "closedSockets attached_example = []" "outbox attached_example 3 = []"
    by (simp_all add: server_defs)
  then show ?thesis
    using reconnect_existing_session [OF attached_example_client, of 3]
    by (simp add: attached_example_client)
qed

subsection \<open>The outbound queue\<close>

text \<open>
  Claim C4. For a client session \<open>c\<close> and calls of \<open>_sendSocketMessage\<close> with the frames
  \<open>ds\<close>, in this order:
  \<^item> while the session has no socket, nothing is handed to any socket, the frames are added
    to the queue in the order of the calls, and when a socket \<open>k\<close> is attached it is handed
    the queued frames, old and new, in insertion order;
  \<^item> while socket \<open>k\<close> is attached, the frames are handed to \<open>k\<close> in the order of the
    calls, after everything handed to it before;
  \<^item> a frame inserted while the session has no socket is held; a held frame stays held
    through every event that does not attach a socket to the session; and the attachment of
    a socket hands the frame to that socket.
\<close>

theorem queue_drains_in_insertion_order:
  assumes "clients s cid = Some c"
  shows "(socket c = None \<longrightarrow>
            outbox (sendSocketMessages s cid ds) = outbox s \<and>
            (\<exists>c'. clients (sendSocketMessages s cid ds) cid = Some c' \<and> socket c' = None \<and>
                  map data (messageQueue c') = map data (messageQueue c) @ ds) \<and>
            outbox (onFirstMessage (sendSocketMessages s cid ds) k cid) k =
              outbox s k @ map data (messageQueue c) @ ds) \<and>
         (socket c = Some k \<longrightarrow> outbox (sendSocketMessages s cid ds) k = outbox s k @ ds) \<and>
         (identities_ok s \<and> socket c = None \<longrightarrow>
            held (sendSocketMessage s cid d) cid \<lparr>uid = fresh s, data = d\<rparr>) \<and>
         (\<forall>m e. held s cid m \<and> \<not> attaches s cid e \<longrightarrow> held (server_step P cfg s e) cid m) \<and>
         (\<forall>m. held s cid m \<longrightarrow>
            data m \<in> set (drop (length (outbox s k)) (outbox (onFirstMessage s k cid) k)))"
proof -
  have A: "socket c = None \<longrightarrow>
            outbox (sendSocketMessages s cid ds) = outbox s \<and>
            (\<exists>c'. clients (sendSocketMessages s cid ds) cid = Some c' \<and> socket c' = None \<and>
                  map data (messageQueue c') = map data (messageQueue c) @ ds) \<and>
            outbox (onFirstMessage (sendSocketMessages s cid ds) k cid) k =
              outbox s k @ map data (messageQueue c) @ ds"
  proof
    assume n: "socket c = None"
    have o: "outbox (sendSocketMessages s cid ds) = outbox s"
      using assms n by (rule sendAll_outbox_detached)
    obtain c' where c': "clients (sendSocketMessages s cid ds) cid = Some c'"
      "socket c' = socket c" "map data (messageQueue c') = map data (messageQueue c) @ ds"
      using sendAll_client [OF assms, of ds] by blast
    have "outbox (onFirstMessage (sendSocketMessages s cid ds) k cid) k =
            outbox s k @ map data (messageQueue c) @ ds"
      using onFirstMessage_outbox [OF c'(1), of k] o c'(3) by simp
    with o c' n show "outbox (sendSocketMessages s cid ds) = outbox s \<and>
            (\<exists>c'. clients (sendSocketMessages s cid ds) cid = Some c' \<and> socket c' = None \<and>
                  map data (messageQueue c') = map data (messageQueue c) @ ds) \<and>
            outbox (onFirstMessage (sendSocketMessages s cid ds) k cid) k =
              outbox s k @ map data (messageQueue c) @ ds" by simp
  qed
  have B: "socket c = Some k \<longrightarrow> outbox (sendSocketMessages s cid ds) k = outbox s k @ ds"
    using sendAll_outbox_attached [OF assms, of k ds] by simp
  have C: "identities_ok s \<and> socket c = None \<longrightarrow>
            held (sendSocketMessage s cid d) cid \<lparr>uid = fresh s, data = d\<rparr>"
    using send_detached_held [OF _ assms] by blast
  have D: "\<forall>m e. held s cid m \<and> \<not> attaches s cid e \<longrightarrow> held (server_step P cfg s e) cid m"
    using step_held by blast
  have E: "\<forall>m. held s cid m \<longrightarrow>
            data m \<in> set (drop (length (outbox s k)) (outbox (onFirstMessage s k cid) k))"
    using held_delivered by blast
  from A B C D E show ?thesis by blast
qed

theorem queue_drains_in_insertion_order_witness:
  "clients detached_example ''c'' =
     Some \<lparr>clientId = ''c'', subscriptions = [], socket = None,
           messageQueue = [\<lparr>uid = 0, data = JStr ''a''\<rparr>]\<rparr> \<and>
   identities_ok detached_example \<and>
   held detached_example ''c'' \<lparr>uid = 0, data = JStr ''a''\<rparr> \<and>
   \<not> attaches detached_example ''c'' (SendSocketMessage ''d'' JNull) \<and>
   outbox (sendSocketMessages detached_example ''c'' [JStr ''b'', JStr ''c'']) = outbox detached_example \<and>
   outbox (onFirstMessage (sendSocketMessages detached_example ''c'' [JStr ''b'', JStr ''c'']) 2 ''c'') 2 =
     [JStr ''a'', JStr ''b'', JStr ''c''] \<and>
   held (sendSocketMessage detached_example ''c'' (JStr ''b'')) ''c'' \<lparr>uid = 1, data = JStr ''b''\<rparr> \<and>
   held (server_step example_parse example_config detached_example (SendSocketMessage ''d'' JNull))
     ''c'' \<lparr>uid = 0, data = JStr ''a''\<rparr> \<and>
   JStr ''a'' \<in> set (outbox (onFirstMessage detached_example 2 ''c'') 2) \<and>
   clients attached_example ''c'' =
     Some \<lparr>clientId = ''c'', subscriptions = [], socket = Some 2,
           messageQueue = [\<lparr>uid = 1, data = JStr ''a''\<rparr>, \<lparr>uid = 2, data = JStr ''b''\<rparr>]\<rparr> \<and>
   outbox (sendSocketMessages attached_example ''c'' [JStr ''c'', JStr ''d'']) 2 =
     [JStr ''a'', JStr ''b'', JStr ''c'', JStr ''d'']"
proof -
  let ?a = "\<lparr>uid = 0, data = JStr ''a''\<rparr>"
  have h: "held detached_example ''c'' ?a"
    by (simp add: held_def server_defs)
  have n: "\<not> attaches detached_example ''c'' (SendSocketMessage ''d'' JNull)"
    by (simp add: attaches_def)
  have f: "fresh detached_example = 1" "outbox detached_example 2 = []"
    by (simp_all add: server_defs)
  have o: "outbox attached_example 2 = [JStr ''a'', JStr ''b'']"
    by (simp add: server_defs)
  note d = queue_drains_in_insertion_order [OF detached_example_client,
      of "[JStr ''b'', JStr ''c'']" 2 "JStr ''b''" example_parse example_config]
  note a = queue_drains_in_insertion_order [OF attached_example_client,
      of "[JStr ''c'', JStr ''d'']" 2 "JStr ''c''" example_parse example_config]
  have "held (server_step example_parse example_config detached_example (SendSocketMessage ''d'' JNull))
     ''c'' ?a"
    using d h n by blast
  moreover have "data ?a \<in> set (drop (length (outbox detached_example 2))
       (outbox (onFirstMessage detached_example 2 ''c'') 2))"
    using d h by blast
  moreover have "held (sendSocketMessage detached_example ''c'' (JStr ''b'')) ''c''
      \<lparr>uid = fresh detached_example, data = JStr ''b''\<rparr>"
    using d detached_example_ok by simp
  ultimately show ?thesis
    using d a h n f o detached_example_ok
    by (simp add: detached_example_client attached_example_client)
qed

subsection \<open>Close events\<close>

text \<open>
  Claim C9. While socket \<open>k\<close> is attached to a client session, a \<open>close\<close> event of any
  other socket, in particular of a socket of the same client that \<open>k\<close> has replaced, leaves
  the session as it is, with \<open>k\<close> attached; a \<open>close\<close> event of \<open>k\<close> itself, the
  socket of this client's connection, sets the session's socket to absent.
\<close>

theorem close_of_superseded_socket:
  assumes "clients s cid = Some c" "socket c = Some k"
  shows "(k0 \<noteq> k \<longrightarrow> clients (onClose s k0) cid = Some c) \<and>
         (connection s k = Some cid \<longrightarrow> clients (onClose s k) cid = Some (c\<lparr>socket := None\<rparr>))"
  using assms by (auto simp: onClose_def server_log_def Let_def split: option.splits)

theorem close_of_superseded_socket_witness:
  "clients superseded_example ''c'' =
     Some \<lparr>clientId = ''c'', subscriptions = [], socket = Some 2, messageQueue = []\<rparr> \<and>
   connection superseded_example 1 = Some ''c'' \<and>
   closedSockets superseded_example = [1] \<and>
   clients (onClose superseded_example 1) ''c'' =
     Some \<lparr>clientId = ''c'', subscriptions = [], socket = Some 2, messageQueue = []\<rparr> \<and>
   connection superseded_example 2 = Some ''c'' \<and>
   clients (onClose superseded_example 2) ''c'' =
     Some \<lparr>clientId = ''c'', subscriptions = [], socket = None, messageQueue = []\<rparr>"
proof -
  have "connection superseded_example 1 = Some ''c''" "connection superseded_example 2 = Some ''c''"
    "closedSockets superseded_example = [1]"
    by (simp_all add: server_defs)
  then show ?thesis
    using close_of_superseded_socket [OF superseded_example_client, of 2 1]
    by (simp add: superseded_example_client)
qed

subsection \<open>Acknowledged removal\<close>

lemma indexOf_distinct:
  "distinct (map uid q) \<Longrightarrow> m \<in> set q \<Longrightarrow>
   \<exists>j. indexOf q m = Some j \<and> splice1 q j = remove1 m q"
proof (induction q)
  case Nil
  then show ?case by simp
next
  case (Cons x q)
  show ?case
  proof (cases "uid x = uid m")
    case True
    have "x = m"
    proof (rule ccontr)
      assume "x \<noteq> m"
      then have "m \<in> set q" using Cons.prems(2) by auto
      then have "uid m \<in> set (map uid q)" by simp
      then show False using Cons.prems(1) True by simp
    qed
    then show ?thesis by (simp add: splice1_def)
  next
    case False
    then have "x \<noteq> m" by auto
    then have "m \<in> set q" using Cons.prems(2) by auto
    moreover have "distinct (map uid q)" using Cons.prems(1) by simp
    ultimately obtain j where "indexOf q m = Some j" "splice1 q j = remove1 m q"
      using Cons.IH by blast
    then show ?thesis using False \<open>x \<noteq> m\<close> by (simp add: splice1_def)
  qed
qed

lemma ack_removes:
  assumes "clients s cid = Some c" "i < length (callbacks s)" "callbacks s ! i = (k, cid, m)"
    "m \<in> set (messageQueue c)" "distinct (map uid (messageQueue c))"
  shows "clients (callbackFires s i False) =
           (clients s)(cid \<mapsto> c\<lparr>messageQueue := remove1 m (messageQueue c)\<rparr>)"
    and "m \<notin> set (remove1 m (messageQueue c))"
proof -
  obtain j where j: "indexOf (messageQueue c) m = Some j"
    "splice1 (messageQueue c) j = remove1 m (messageQueue c)"
    using indexOf_distinct [OF assms(5,4)] by blast
  show "clients (callbackFires s i False) =
           (clients s)(cid \<mapsto> c\<lparr>messageQueue := remove1 m (messageQueue c)\<rparr>)"
    using assms(1,2,3) j by (simp add: callbackFires_def sendCallback_def)
  have "distinct (messageQueue c)" using assms(5) by (simp add: distinct_map)
  then show "m \<notin> set (remove1 m (messageQueue c))" by simp
qed

lemma send_wrappers_distinct:
  assumes "identities_ok s" "wrappers_distinct s"
  shows "wrappers_distinct (sendSocketMessage s cid d)"
  unfolding wrappers_distinct_def
proof
  fix c' assume "c' \<in> ran (clients (sendSocketMessage s cid d))"
  then obtain cid' where "clients (sendSocketMessage s cid d) cid' = Some c'"
    by (auto simp: ran_def)
  from send_queue [OF this] obtain c0 where c0: "clients s cid' = Some c0"
    and alt: "messageQueue c' = messageQueue c0 \<or>
              messageQueue c' = messageQueue c0 @ [\<lparr>uid = fresh s, data = d\<rparr>]"
    by blast
  have r: "c0 \<in> ran (clients s)" using c0 by (auto simp: ran_def)
  then have d0: "distinct (map uid (messageQueue c0))"
    using assms(2) by (simp add: wrappers_distinct_def)
  have "\<forall>m \<in> set (messageQueue c0). uid m < fresh s"
    using assms(1) r by (simp add: identities_ok_def)
  then have "fresh s \<notin> uid ` set (messageQueue c0)" by fastforce
  with alt d0 show "distinct (map uid (messageQueue c'))" by auto
qed

lemma sendAll_wrappers_distinct:
  "identities_ok s \<Longrightarrow> wrappers_distinct s \<Longrightarrow> wrappers_distinct (sendSocketMessages s cid ds)"
  by (induction ds arbitrary: s) (simp_all add: send_identities_ok send_wrappers_distinct)

lemma onFirstMessage_wrappers_distinct:
  assumes "identities_ok s" "wrappers_distinct s"
  shows "wrappers_distinct (onFirstMessage s k cid)"
proof -
  let ?c = "case clients s cid of Some c \<Rightarrow> c | None \<Rightarrow> newClient cid"
  let ?s1 = "closePrevious (s\<lparr>connection := (connection s)(k \<mapsto> cid)\<rparr>) ?c"
  let ?s2 = "server_log ?s1 Info ''Client #%s connecting with a new socket!''"
  let ?s3 = "?s2\<lparr>clients := (clients ?s2)(cid \<mapsto> ?c\<lparr>socket := Some k, messageQueue := []\<rparr>)\<rparr>"
  have eq: "onFirstMessage s k cid = sendSocketMessages ?s3 cid (map data (messageQueue ?c))"
    by (simp add: onFirstMessage_def Let_def flush_sendSocketMessages)
  have a: "identities_ok ?s3"
    using assms(1) unfolding identities_ok_def
    by (auto simp: closePrevious_def server_log_def split: option.splits dest!: ran_upd)
  have b: "wrappers_distinct ?s3"
    using assms(2) unfolding wrappers_distinct_def
    by (auto simp: closePrevious_def server_log_def split: option.splits dest!: ran_upd)
  show ?thesis unfolding eq using a b by (rule sendAll_wrappers_distinct)
qed

lemma callbackFires_wrappers_distinct:
  assumes "wrappers_distinct s"
  shows "wrappers_distinct (callbackFires s i err)"
proof (cases "i < length (callbacks s)")
  case False
  then show ?thesis using assms by (simp add: callbackFires_def)
next
  case True
  obtain k cid0 m0 where x: "callbacks s ! i = (k, cid0, m0)" by (cases "callbacks s ! i") auto
  let ?s1 = "s\<lparr>callbacks := splice1 (callbacks s) i\<rparr>"
  have h1: "wrappers_distinct ?s1" using assms by (simp add: wrappers_distinct_def)
  have eq: "callbackFires s i err = sendCallback ?s1 cid0 m0 err"
    using True x by (simp add: callbackFires_def)
  have "wrappers_distinct (sendCallback ?s1 cid0 m0 err)"
  proof (cases "err \<or> clients s cid0 = None \<or> indexOf (messageQueue (the (clients s cid0))) m0 = None")
    case True
    then show ?thesis using h1
      by (auto simp: sendCallback_def server_log_def wrappers_distinct_def split: option.splits)
  next
    case False
    then obtain c0 j where c0: "clients s cid0 = Some c0" "indexOf (messageQueue c0) m0 = Some j" "\<not> err"
      by auto
    have s2: "sendCallback ?s1 cid0 m0 err =
              ?s1\<lparr>clients := (clients s)(cid0 \<mapsto> c0\<lparr>messageQueue := splice1 (messageQueue c0) j\<rparr>)\<rparr>"
      using c0 by (simp add: sendCallback_def)
    have "c0 \<in> ran (clients s)" using c0(1) by (auto simp: ran_def)
    then have "distinct (map uid (messageQueue c0))"
      using assms by (simp add: wrappers_distinct_def)
    then have "distinct (map uid (splice1 (messageQueue c0) j))" by (rule distinct_splice1)
    then show ?thesis using h1 unfolding s2 wrappers_distinct_def
      by (auto dest!: ran_upd)
  qed
  then show ?thesis by (simp add: eq)
qed

lemma onClose_wrappers_distinct: "wrappers_distinct s \<Longrightarrow> wrappers_distinct (onClose s k)"
  unfolding wrappers_distinct_def onClose_def
  by (auto simp: server_log_def Let_def split: option.splits dest!: ran_upd)
    (auto simp: ran_def)

lemma step_wrappers_distinct:
  assumes "identities_ok s" "wrappers_distinct s"
  shows "wrappers_distinct (server_step P cfg s e)"
proof (cases e)
  case (Connection k)
  then show ?thesis using assms by (simp add: onConnection_def server_log_def wrappers_distinct_def)
next
  case (Message k payload)
  show ?thesis
  proof (cases "connection s k")
    case None
    then show ?thesis using assms Message by (simp add: onFirstMessage_wrappers_distinct)
  next
    case (Some cid0)
    then show ?thesis using assms Message
      by (simp add: onSocketMessage_def wrappers_distinct_def split: option.splits)
  qed
next
  case (Close k)
  then show ?thesis using assms by (simp add: onClose_wrappers_distinct)
next
  case (SocketError k)
  then show ?thesis using assms by (simp add: onError_def server_log_def wrappers_distinct_def)
next
  case (SendSocketMessage cid' d)
  then show ?thesis using assms by (simp add: send_wrappers_distinct)
next
  case (CallbackFires i err)
  then show ?thesis using assms by (simp add: callbackFires_wrappers_distinct)
qed

lemma run_wrappers_distinct:
  "identities_ok s \<Longrightarrow> wrappers_distinct s \<Longrightarrow> wrappers_distinct (server_run P cfg s es)"
  unfolding server_run_def
  by (induction es arbitrary: s) (simp_all add: step_identities_ok step_wrappers_distinct)

lemma newServer_wrappers_distinct: "wrappers_distinct newServer"
  by (simp add: wrappers_distinct_def newServer_def)

lemma send_order:
  assumes "clients s cid = Some c"
  shows "sendSocketMessage s cid d =
           (case socket c of
              None \<Rightarrow> enqueue s cid c d
            | Some k \<Rightarrow> transmit (enqueue s cid c d) k cid \<lparr>uid = fresh s, data = d\<rparr>)"
  using assms by (simp add: sendSocketMessage_def Let_def)

lemma enqueue_effect:
  "outbox (enqueue s cid c d) = outbox s"
  "callbacks (enqueue s cid c d) = callbacks s"
  "clients (enqueue s cid c d) cid =
     Some (c\<lparr>messageQueue := messageQueue c @ [\<lparr>uid = fresh s, data = d\<rparr>]\<rparr>)"
  by (simp_all add: enqueue_def)

lemma transmit_effect:
  "outbox (transmit s k cid m) k = outbox s k @ [data m]"
  "callbacks (transmit s k cid m) = callbacks s @ [(k, cid, m)]"
  "clients (transmit s k cid m) = clients s"
  by (simp_all add: transmit_def)

lemma attached_example_distinct: "wrappers_distinct attached_example"
proof -
  have "wrappers_distinct detached_example"
    unfolding detached_example_def
    by (rule run_wrappers_distinct [OF newServer_identities_ok newServer_wrappers_distinct])
  with detached_example_ok show ?thesis
    unfolding attached_example_def by (rule run_wrappers_distinct)
qed

text \<open>
  Claim C10. \<open>_sendSocketMessage\<close> first appends the frame to the client's queue, whether
  or not a socket is attached: the append hands nothing to a socket and registers no
  callback, and the transmission, if a socket is attached, starts from the state that has
  the frame in the queue. The frames of the queue stay, in order, through every event
  except a callback reporting a successful send; such a callback removes the frame it
  reports, and only that frame, so that the next attachment does not send it again. A
  callback reporting a failed send changes no queue, and the frame it reports is then
  held: it stays in the queue through every event that does not attach a socket to the
  client, and the attachment of the next socket hands it to that socket.
\<close>

theorem frame_queued_until_send_succeeds:
  assumes "clients s cid = Some c"
  shows "(\<exists>c'. clients (sendSocketMessage s cid d) cid = Some c' \<and>
               messageQueue c' = messageQueue c @ [\<lparr>uid = fresh s, data = d\<rparr>]) \<and>
         (sendSocketMessage s cid d =
            (case socket c of
               None \<Rightarrow> enqueue s cid c d
             | Some k \<Rightarrow> transmit (enqueue s cid c d) k cid \<lparr>uid = fresh s, data = d\<rparr>) \<and>
          outbox (enqueue s cid c d) = outbox s \<and>
          callbacks (enqueue s cid c d) = callbacks s \<and>
          clients (enqueue s cid c d) cid =
            Some (c\<lparr>messageQueue := messageQueue c @ [\<lparr>uid = fresh s, data = d\<rparr>]\<rparr>)) \<and>
         (\<forall>k. socket c = Some k \<longrightarrow>
              outbox (sendSocketMessage s cid d) k = outbox s k @ [d] \<and>
              callbacks (sendSocketMessage s cid d) =
                callbacks s @ [(k, cid, \<lparr>uid = fresh s, data = d\<rparr>)]) \<and>
         (\<forall>e. (\<forall>i. e \<noteq> CallbackFires i False) \<longrightarrow>
               (\<exists>c' extra. clients (server_step P cfg s e) cid = Some c' \<and>
                  map data (messageQueue c') = map data (messageQueue c) @ extra)) \<and>
         (\<forall>i k m. wrappers_distinct s \<and> i < length (callbacks s) \<and>
                  callbacks s ! i = (k, cid, m) \<and> m \<in> set (messageQueue c) \<longrightarrow>
                  clients (callbackFires s i False) =
                    (clients s)(cid \<mapsto> c\<lparr>messageQueue := remove1 m (messageQueue c)\<rparr>) \<and>
                  m \<notin> set (remove1 m (messageQueue c)) \<and>
                  (\<forall>k'. outbox (onFirstMessage (callbackFires s i False) k' cid) k' =
                          outbox s k' @ map data (remove1 m (messageQueue c)))) \<and>
         (\<forall>i k m. identities_ok s \<and> i < length (callbacks s) \<and> callbacks s ! i = (k, cid, m) \<and>
                  m \<in> set (messageQueue c) \<longrightarrow>
                  clients (callbackFires s i True) = clients s \<and>
                  held (callbackFires s i True) cid m) \<and>
         (\<forall>m e. held s cid m \<and> \<not> attaches s cid e \<longrightarrow> held (server_step P cfg s e) cid m) \<and>
         (\<forall>m k. held s cid m \<longrightarrow>
            data m \<in> set (drop (length (outbox s k)) (outbox (onFirstMessage s k cid) k)))"
proof -
  let ?w = "\<lparr>uid = fresh s, data = d\<rparr>"
  have A: "\<exists>c'. clients (sendSocketMessage s cid d) cid = Some c' \<and>
               messageQueue c' = messageQueue c @ [?w]"
    by (simp add: send_client [OF assms])
  have O: "sendSocketMessage s cid d =
            (case socket c of
               None \<Rightarrow> enqueue s cid c d
             | Some k \<Rightarrow> transmit (enqueue s cid c d) k cid ?w) \<and>
          outbox (enqueue s cid c d) = outbox s \<and>
          callbacks (enqueue s cid c d) = callbacks s \<and>
          clients (enqueue s cid c d) cid = Some (c\<lparr>messageQueue := messageQueue c @ [?w]\<rparr>)"
    using send_order [OF assms, of d] enqueue_effect [of s cid c d] by simp
  have T: "\<forall>k. socket c = Some k \<longrightarrow>
              outbox (sendSocketMessage s cid d) k = outbox s k @ [d] \<and>
              callbacks (sendSocketMessage s cid d) = callbacks s @ [(k, cid, ?w)]"
  proof (intro allI impI)
    fix k assume k: "socket c = Some k"
    have "sendSocketMessage s cid d = transmit (enqueue s cid c d) k cid ?w"
      using send_order [OF assms, of d] k by simp
    then show "outbox (sendSocketMessage s cid d) k = outbox s k @ [d] \<and>
              callbacks (sendSocketMessage s cid d) = callbacks s @ [(k, cid, ?w)]"
      by (simp add: transmit_effect enqueue_effect)
  qed
  have B: "\<forall>e. (\<forall>i. e \<noteq> CallbackFires i False) \<longrightarrow>
               (\<exists>c' extra. clients (server_step P cfg s e) cid = Some c' \<and>
                  map data (messageQueue c') = map data (messageQueue c) @ extra)"
    using step_queue_data [OF assms] by blast
  have S: "\<forall>i k m. wrappers_distinct s \<and> i < length (callbacks s) \<and>
                  callbacks s ! i = (k, cid, m) \<and> m \<in> set (messageQueue c) \<longrightarrow>
                  clients (callbackFires s i False) =
                    (clients s)(cid \<mapsto> c\<lparr>messageQueue := remove1 m (messageQueue c)\<rparr>) \<and>
                  m \<notin> set (remove1 m (messageQueue c)) \<and>
                  (\<forall>k'. outbox (onFirstMessage (callbackFires s i False) k' cid) k' =
                          outbox s k' @ map data (remove1 m (messageQueue c)))"
  proof (intro allI impI)
    fix i k m
    assume h: "wrappers_distinct s \<and> i < length (callbacks s) \<and>
                  callbacks s ! i = (k, cid, m) \<and> m \<in> set (messageQueue c)"
    have "c \<in> ran (clients s)" using assms by (auto simp: ran_def)
    then have d: "distinct (map uid (messageQueue c))"
      using h by (simp add: wrappers_distinct_def)
    have i: "i < length (callbacks s)" and x: "callbacks s ! i = (k, cid, m)"
      and m: "m \<in> set (messageQueue c)"
      using h by simp_all
    note r = ack_removes [OF assms i x m d]
    have cl: "clients (callbackFires s i False) cid =
                Some (c\<lparr>messageQueue := remove1 m (messageQueue c)\<rparr>)"
      using r(1) by simp
    have ob: "outbox (callbackFires s i False) = outbox s"
      using i x by (simp add: callbackFires_def sendCallback_def split: option.splits)
    have "\<forall>k'. outbox (onFirstMessage (callbackFires s i False) k' cid) k' =
                 outbox s k' @ map data (remove1 m (messageQueue c))"
      using onFirstMessage_outbox [OF cl] ob by simp
    with r show "clients (callbackFires s i False) =
                    (clients s)(cid \<mapsto> c\<lparr>messageQueue := remove1 m (messageQueue c)\<rparr>) \<and>
                  m \<notin> set (remove1 m (messageQueue c)) \<and>
                  (\<forall>k'. outbox (onFirstMessage (callbackFires s i False) k' cid) k' =
                          outbox s k' @ map data (remove1 m (messageQueue c)))"
      by blast
  qed
  have C: "\<forall>i k m. identities_ok s \<and> i < length (callbacks s) \<and> callbacks s ! i = (k, cid, m) \<and>
                  m \<in> set (messageQueue c) \<longrightarrow>
                  clients (callbackFires s i True) = clients s \<and>
                  held (callbackFires s i True) cid m"
  proof (intro allI impI)
    fix i k m
    assume h: "identities_ok s \<and> i < length (callbacks s) \<and> callbacks s ! i = (k, cid, m) \<and>
                  m \<in> set (messageQueue c)"
    then have "clients (callbackFires s i True) = clients s"
      by (simp add: callbackFires_def sendCallback_def server_log_def)
    moreover have "held (callbackFires s i True) cid m"
      using h failed_send_held [OF _ _ _ assms] by blast
    ultimately show "clients (callbackFires s i True) = clients s \<and>
                  held (callbackFires s i True) cid m" by simp
  qed
  have D: "\<forall>m e. held s cid m \<and> \<not> attaches s cid e \<longrightarrow> held (server_step P cfg s e) cid m"
    using step_held by blast
  have E: "\<forall>m k. held s cid m \<longrightarrow>
            data m \<in> set (drop (length (outbox s k)) (outbox (onFirstMessage s k cid) k))"
    using held_delivered by blast
  from A O T B S C D E show ?thesis by blast
qed

theorem frame_queued_until_send_succeeds_witness:
  "clients attached_example ''c'' =
     Some \<lparr>clientId = ''c'', subscriptions = [], socket = Some 2,
           messageQueue = [\<lparr>uid = 1, data = JStr ''a''\<rparr>, \<lparr>uid = 2, data = JStr ''b''\<rparr>]\<rparr> \<and>
   identities_ok attached_example \<and> wrappers_distinct attached_example \<and>
   callbacks attached_example ! 0 = (2, ''c'', \<lparr>uid = 1, data = JStr ''a''\<rparr>) \<and>
   (\<exists>c'. clients (sendSocketMessage attached_example ''c'' (JStr ''z'')) ''c'' = Some c' \<and>
      messageQueue c' = [\<lparr>uid = 1, data = JStr ''a''\<rparr>, \<lparr>uid = 2, data = JStr ''b''\<rparr>,
                         \<lparr>uid = 3, data = JStr ''z''\<rparr>]) \<and>
   outbox attached_example 2 = [JStr ''a'', JStr ''b''] \<and>
   outbox (sendSocketMessage attached_example ''c'' (JStr ''z'')) 2 =
     [JStr ''a'', JStr ''b'', JStr ''z''] \<and>
   callbacks (sendSocketMessage attached_example ''c'' (JStr ''z'')) =
     callbacks attached_example @ [(2, ''c'', \<lparr>uid = 3, data = JStr ''z''\<rparr>)] \<and>
   (\<exists>c' extra. clients (server_step example_parse example_config attached_example (Message 3 ''c'')) ''c'' = Some c' \<and>
      map data (messageQueue c') = [JStr ''a'', JStr ''b''] @ extra) \<and>
   clients (callbackFires attached_example 0 False) ''c'' =
     Some \<lparr>clientId = ''c'', subscriptions = [], socket = Some 2,
           messageQueue = [\<lparr>uid = 2, data = JStr ''b''\<rparr>]\<rparr> \<and>
   outbox (onFirstMessage (callbackFires attached_example 0 False) 3 ''c'') 3 = [JStr ''b''] \<and>
   clients (callbackFires attached_example 0 True) = clients attached_example \<and>
   held (callbackFires attached_example 0 True) ''c'' \<lparr>uid = 1, data = JStr ''a''\<rparr> \<and>
   \<not> attaches (callbackFires attached_example 0 True) ''c'' (CallbackFires 0 False) \<and>
   held (server_step example_parse example_config (callbackFires attached_example 0 True) (CallbackFires 0 False))
     ''c'' \<lparr>uid = 1, data = JStr ''a''\<rparr> \<and>
   JStr ''a'' \<in> set (outbox (onFirstMessage (callbackFires attached_example 0 True) 3 ''c'') 3)"
proof -
  let ?a = "\<lparr>uid = 1, data = JStr ''a''\<rparr>"
  let ?b = "\<lparr>uid = 2, data = JStr ''b''\<rparr>"
  let ?t = "callbackFires attached_example 0 True"
  let ?c = "\<lparr>clientId = ''c'', subscriptions = [], socket = Some 2, messageQueue = [?a, ?b]\<rparr>"
  have cb: "callbacks attached_example = [(2, ''c'', ?a), (2, ''c'', ?b)]"
    "fresh attached_example = 3"
    by (simp_all add: server_defs)
  have ob: "outbox attached_example 2 = [JStr ''a'', JStr ''b'']" "outbox attached_example 3 = []"
    by (simp_all add: server_defs)
  note w = frame_queued_until_send_succeeds [OF attached_example_client,
      of "JStr ''z''" example_parse example_config]
  note w1 = w [THEN conjunct1]
  note w3 = w [THEN conjunct2, THEN conjunct2, THEN conjunct1, rule_format]
  note w4 = w [THEN conjunct2, THEN conjunct2, THEN conjunct2, THEN conjunct1, rule_format]
  note w5 = w [THEN conjunct2, THEN conjunct2, THEN conjunct2, THEN conjunct2, THEN conjunct1,
      rule_format]
  note w6 = w [THEN conjunct2, THEN conjunct2, THEN conjunct2, THEN conjunct2, THEN conjunct2,
      THEN conjunct1, rule_format]
  have s1: "\<exists>c'. clients (sendSocketMessage attached_example ''c'' (JStr ''z'')) ''c'' = Some c' \<and>
      messageQueue c' = [?a, ?b, \<lparr>uid = 3, data = JStr ''z''\<rparr>]"
    using w1 cb(2) by simp
  have s3: "outbox (sendSocketMessage attached_example ''c'' (JStr ''z'')) 2 =
      [JStr ''a'', JStr ''b'', JStr ''z''] \<and>
    callbacks (sendSocketMessage attached_example ''c'' (JStr ''z'')) =
      callbacks attached_example @ [(2, ''c'', \<lparr>uid = 3, data = JStr ''z''\<rparr>)]"
    using w3 [of 2] cb(2) ob(1) by simp
  have ne: "\<And>i. Message 3 ''c'' \<noteq> CallbackFires i False" by simp
  have s4: "\<exists>c' extra. clients (server_step example_parse example_config attached_example
        (Message 3 ''c'')) ''c'' = Some c' \<and>
      map data (messageQueue c') = [JStr ''a'', JStr ''b''] @ extra"
    using w4 [OF ne] by simp
  have "wrappers_distinct attached_example \<and> 0 < length (callbacks attached_example) \<and>
      callbacks attached_example ! 0 = (2, ''c'', ?a) \<and> ?a \<in> set (messageQueue ?c)"
    using attached_example_distinct cb by simp
  from w5 [OF this]
  have s5: "clients (callbackFires attached_example 0 False) ''c'' =
      Some \<lparr>clientId = ''c'', subscriptions = [], socket = Some 2, messageQueue = [?b]\<rparr>"
    "outbox (onFirstMessage (callbackFires attached_example 0 False) 3 ''c'') 3 = [JStr ''b'']"
    using ob(2) by simp_all
  have "identities_ok attached_example \<and> 0 < length (callbacks attached_example) \<and>
      callbacks attached_example ! 0 = (2, ''c'', ?a) \<and> ?a \<in> set (messageQueue ?c)"
    using attached_example_ok cb by simp
  from w6 [OF this]
  have q: "clients ?t = clients attached_example" and h: "held ?t ''c'' ?a" by simp_all
  have ct: "clients ?t ''c'' = Some ?c"
    using q attached_example_client by simp
  have n: "\<not> attaches ?t ''c'' (CallbackFires 0 False)"
    by (simp add: attaches_def)
  have o: "outbox ?t 3 = []"
    by (simp add: server_defs cb)
  note v = frame_queued_until_send_succeeds [OF ct, of "JStr ''z''" example_parse example_config]
  have "held (server_step example_parse example_config ?t (CallbackFires 0 False)) ''c'' ?a"
    using v h n by blast
  moreover have "data ?a \<in> set (drop (length (outbox ?t 3)) (outbox (onFirstMessage ?t 3 ''c'') 3))"
    using v h by blast
  ultimately show ?thesis
    using s1 s3 s4 s5 q h n o cb ob attached_example_ok attached_example_distinct
    by (simp add: attached_example_client)
qed

end
